theory Spec2Isabelle
  imports Complex_Main "HOL-Library.Word"
begin

section \<open>JavaScript numbers\<close>

text \<open>
  The utilities of \<^verbatim>\<open>src/libs/filamentjs/utilities.js\<close> compute on JavaScript
  numbers. A number is modelled by the value it denotes: \<open>NaN\<close>, one of the two
  infinities, or a finite real. The two zeros are one value here. An arithmetic
  operation on finite numbers rounds its exact result to a binary64 number; the rounding
  is the parameter \<open>fl\<close> (a function from the exact real result to the number that is
  stored, an infinity when the result overflows), so nothing below assumes that a
  product is exact.
\<close>

datatype number = NaN | NegInf | Fin real | PosInf

text \<open>The comparison \<^verbatim>\<open>a < b\<close>: false as soon as one side is \<open>NaN\<close>.\<close>

fun num_less :: "number \<Rightarrow> number \<Rightarrow> bool" where
  "num_less (Fin a) (Fin b) = (a < b)"
| "num_less (Fin a) PosInf = True"
| "num_less NegInf (Fin b) = True"
| "num_less NegInf PosInf = True"
| "num_less _ _ = False"

text \<open>\<^verbatim>\<open>Math.min\<close> and \<^verbatim>\<open>Math.max\<close> of two arguments: \<open>NaN\<close> when one of them is.\<close>

definition Math_min :: "number \<Rightarrow> number \<Rightarrow> number" where
  "Math_min a b = (if a = NaN \<or> b = NaN then NaN else if num_less b a then b else a)"

definition Math_max :: "number \<Rightarrow> number \<Rightarrow> number" where
  "Math_max a b = (if a = NaN \<or> b = NaN then NaN else if num_less a b then b else a)"

text \<open>
  \<^verbatim>\<open>Math.round\<close>: the nearest integer, a tie going up; \<open>NaN\<close> and the infinities are
  returned as they are.
\<close>

fun Math_round :: "number \<Rightarrow> number" where
  "Math_round (Fin r) = Fin (of_int \<lfloor>r + 1 / 2\<rfloor>)"
| "Math_round x = x"

text \<open>The product \<^verbatim>\<open>x * y\<close>; \<open>fl\<close> rounds the exact product of two finite numbers.\<close>

fun num_times :: "(real \<Rightarrow> number) \<Rightarrow> number \<Rightarrow> number \<Rightarrow> number" where
  "num_times fl NaN y = NaN"
| "num_times fl x NaN = NaN"
| "num_times fl (Fin a) (Fin b) = fl (a * b)"
| "num_times fl (Fin a) PosInf = (if a = 0 then NaN else if 0 < a then PosInf else NegInf)"
| "num_times fl (Fin a) NegInf = (if a = 0 then NaN else if 0 < a then NegInf else PosInf)"
| "num_times fl PosInf (Fin b) = (if b = 0 then NaN else if 0 < b then PosInf else NegInf)"
| "num_times fl NegInf (Fin b) = (if b = 0 then NaN else if 0 < b then NegInf else PosInf)"
| "num_times fl PosInf PosInf = PosInf"
| "num_times fl PosInf NegInf = NegInf"
| "num_times fl NegInf PosInf = NegInf"
| "num_times fl NegInf NegInf = PosInf"

text \<open>
  Storing a number into a \<^verbatim>\<open>Uint16Array\<close>: \<open>NaN\<close> and the infinities become 0, a
  finite number is truncated towards zero and reduced modulo \<open>2 ^ 16\<close>.
\<close>

definition ToUint16 :: "number \<Rightarrow> 16 word" where
  "ToUint16 x = (case x of Fin r \<Rightarrow> word_of_int (if 0 \<le> r then \<lfloor>r\<rfloor> else \<lceil>r\<rceil>) | _ \<Rightarrow> 0)"

section \<open>Math extensions: clamp and packSnorm16\<close>

text \<open>
  \<^verbatim>\<open>function clamp(v, least, most) { return Math.max(Math.min(most, v), least); }\<close>
\<close>

definition clamp :: "number \<Rightarrow> number \<Rightarrow> number \<Rightarrow> number" where
  "clamp v least most = Math_max (Math_min most v) least"

text \<open>
  \<^verbatim>\<open>Filament.packSnorm16 = function(value) {
    return Math.round(clamp(value, -1.0, 1.0) * 32767.0); }\<close>
\<close>

definition packSnorm16 :: "(real \<Rightarrow> number) \<Rightarrow> number \<Rightarrow> number" where
  "packSnorm16 fl v = Math_round (num_times fl (clamp v (Fin (- 1)) (Fin 1)) (Fin 32767))"

section \<open>The environment of the geometry utilities\<close>

text \<open>
  \<^verbatim>\<open>Filament.IcoSphere\<close> requires glMatrix, a library that is not part of this
  repository, and runs on the typed arrays of the JavaScript engine. What it takes from
  them is a parameter of the model:
  \<^item> \<open>round64\<close>, the binary64 rounding of a product (the \<open>fl\<close> of \<open>packSnorm16\<close>);
  \<^item> \<open>fround\<close>, the conversion a \<^verbatim>\<open>Float32Array\<close> applies to a number stored in it;
  \<^item> \<open>glm_store\<close>, the same for the arrays glMatrix creates (\<^verbatim>\<open>vec3.create()\<close>,
    \<^verbatim>\<open>quat.create()\<close>);
  \<^item> \<open>vec3_add\<close>, \<open>vec3_normalize\<close>, \<open>vec3_cross\<close>, \<open>quat_fromMat3\<close>: the numbers the
    glMatrix function of that name computes for its \<open>out\<close> argument, from the arrays
    it is given.
\<close>

record env =
  round64 :: "real \<Rightarrow> number"
  fround :: "number \<Rightarrow> number"
  glm_store :: "number \<Rightarrow> number"
  vec3_add :: "number list \<Rightarrow> number list \<Rightarrow> number \<times> number \<times> number"
  vec3_normalize :: "number list \<Rightarrow> number \<times> number \<times> number"
  vec3_cross :: "number list \<Rightarrow> number list \<Rightarrow> number \<times> number \<times> number"
  quat_fromMat3 :: "number list \<Rightarrow> number \<times> number \<times> number \<times> number"

section \<open>Typed arrays\<close>

text \<open>
  A typed array is the list of its elements. \<^verbatim>\<open>a.subarray(b, e)\<close> is a view of the
  elements from \<open>b\<close> up to \<open>e\<close>, both clamped to the length. A write through a view at
  an index outside the view is ignored, as is a write to an array outside its length:
  that is what list update does. Reading past the end of an array yields
  \<^verbatim>\<open>undefined\<close>, which arithmetic turns into \<open>NaN\<close>.
\<close>

definition subarray :: "'a list \<Rightarrow> nat \<Rightarrow> nat \<Rightarrow> 'a list" where
  "subarray xs b e = take (e - b) (drop b xs)"

definition elem :: "number list \<Rightarrow> nat \<Rightarrow> number" where
  "elem xs k = (if k < length xs then xs ! k else NaN)"

text \<open>
  \<^verbatim>\<open>dst.set(src)\<close> copies \<open>src\<close> over the first elements of \<open>dst\<close>; it throws a
  \<^verbatim>\<open>RangeError\<close> when \<open>src\<close> is longer than \<open>dst\<close>.
\<close>

datatype error = RangeError

definition typed_set :: "'a list \<Rightarrow> 'a list \<Rightarrow> error + 'a list" where
  "typed_set dst src =
     (if length dst < length src then Inl RangeError else Inr (src @ drop (length src) dst))"

text \<open>
  The three numbers a glMatrix function leaves in \<open>out\<close>, where \<open>out\<close> is the view
  \<^verbatim>\<open>xs.subarray(b, b + 3)\<close> of the array \<open>xs\<close>, whose elements convert by \<open>conv\<close>.
\<close>

fun store3 :: "(number \<Rightarrow> number) \<Rightarrow> number list \<Rightarrow> nat \<Rightarrow> number \<times> number \<times> number \<Rightarrow> number list" where
  "store3 conv xs b (x, y, z) = xs[b := conv x, b + 1 := conv y, b + 2 := conv z]"

text \<open>The array of \<^verbatim>\<open>vec3.create()\<close> or \<^verbatim>\<open>quat.create()\<close> after glMatrix has filled it.\<close>

fun glm3 :: "env \<Rightarrow> number \<times> number \<times> number \<Rightarrow> number list" where
  "glm3 e (x, y, z) = [glm_store e x, glm_store e y, glm_store e z]"

fun glm4 :: "env \<Rightarrow> number \<times> number \<times> number \<times> number \<Rightarrow> number list" where
  "glm4 e (x, y, z, w) = [glm_store e x, glm_store e y, glm_store e z, glm_store e w]"

section \<open>The icosphere\<close>

text \<open>
  The object \<^verbatim>\<open>this\<close> of \<^verbatim>\<open>Filament.IcoSphere\<close>: \<open>vertices\<close> is a
  \<^verbatim>\<open>Float32Array\<close> of XYZ coordinates, \<open>triangles\<close> and \<open>tangents\<close> are
  \<^verbatim>\<open>Uint16Array\<close>s. \<open>tangents\<close> is assigned last; until then it is the empty list
  here.
\<close>

record icosphere =
  vertices :: "number list"
  triangles :: "16 word list"
  tangents :: "16 word list"

subsection \<open>subdivide\<close>

text \<open>
  \<^verbatim>\<open>vec3.normalize(v, vec3.add(v, a, b))\<close> where \<open>v\<close> is the view
  \<^verbatim>\<open>dst.subarray(i, i + 3)\<close> of the \<^verbatim>\<open>Float32Array\<close> \<open>dst\<close>, and \<open>a\<close> and \<open>b\<close> are
  views of another array: \<open>add\<close> writes the sum into \<open>v\<close> and returns \<open>v\<close>, which
  \<open>normalize\<close> reads and overwrites.
\<close>

definition normalized_sum :: "env \<Rightarrow> number list \<Rightarrow> nat \<Rightarrow> number list \<Rightarrow> number list \<Rightarrow> number list" where
  "normalized_sum e dst i a b =
     (let dst1 = store3 (fround e) dst i (vec3_add e a b)
      in store3 (fround e) dst1 i (vec3_normalize e (subarray dst1 i (i + 3))))"

text \<open>The variables of the loop of \<open>subdivide\<close>, and the two arrays it fills.\<close>

record loop_state =
  srcind :: nat
  dstind :: nat
  i3 :: nat
  i4 :: nat
  i5 :: nat
  dsttris :: "16 word list"
  dstverts :: "number list"

text \<open>
  One iteration of the loop, on the triangle at \<open>srcind\<close>. An index read from
  \<open>srctris\<close> is a 16-bit value; \<^verbatim>\<open>i0 / 3\<close> is that value again, and \<^verbatim>\<open>i3 / 3\<close>,
  \<^verbatim>\<open>i4 / 3\<close> and \<^verbatim>\<open>i5 / 3\<close> are whole numbers (\<open>i3\<close>, \<open>i4\<close> and \<open>i5\<close> are multiples
  of 3); storing them into the \<^verbatim>\<open>Uint16Array\<close> \<open>dsttris\<close> reduces them modulo
  \<open>2 ^ 16\<close>, which is \<open>of_nat\<close>. The loop reads \<open>srctris\<close> below \<open>3 * nsrctris\<close> only,
  inside the array.
\<close>

definition subdivide_body :: "env \<Rightarrow> 16 word list \<Rightarrow> number list \<Rightarrow> loop_state \<Rightarrow> loop_state" where
  "subdivide_body e srctris srcverts s =
     (let i0 = unat (srctris ! srcind s) * 3;
          i1 = unat (srctris ! (srcind s + 1)) * 3;
          i2 = unat (srctris ! (srcind s + 2)) * 3;
          v0 = subarray srcverts i0 (i0 + 3);
          v1 = subarray srcverts i1 (i1 + 3);
          v2 = subarray srcverts i2 (i2 + 3);
          verts3 = normalized_sum e (dstverts s) (i3 s) v0 v1;
          verts4 = normalized_sum e verts3 (i4 s) v1 v2;
          verts5 = normalized_sum e verts4 (i5 s) v2 v0;
          d = dstind s;
          tris = (dsttris s)
            [d := of_nat (i0 div 3), d + 1 := of_nat (i3 s div 3), d + 2 := of_nat (i5 s div 3),
             d + 3 := of_nat (i3 s div 3), d + 4 := of_nat (i1 div 3), d + 5 := of_nat (i4 s div 3),
             d + 6 := of_nat (i5 s div 3), d + 7 := of_nat (i3 s div 3), d + 8 := of_nat (i4 s div 3),
             d + 9 := of_nat (i2 div 3), d + 10 := of_nat (i5 s div 3), d + 11 := of_nat (i4 s div 3)]
      in \<lparr>srcind = srcind s + 3, dstind = d + 12,
          i3 = i3 s + 9, i4 = i4 s + 9, i5 = i5 s + 9,
          dsttris = tris, dstverts = verts5\<rparr>)"

text \<open>
  \<^verbatim>\<open>for (var tri = 0; tri < nsrctris; tri++, i3 += 9, i4 += 9, i5 += 9) { ... }\<close>
\<close>

function subdivide_loop :: "env \<Rightarrow> 16 word list \<Rightarrow> number list \<Rightarrow> nat \<Rightarrow> nat \<Rightarrow> loop_state \<Rightarrow> loop_state" where
  "subdivide_loop e srctris srcverts nsrctris tri s =
     (if tri < nsrctris
      then subdivide_loop e srctris srcverts nsrctris (tri + 1) (subdivide_body e srctris srcverts s)
      else s)"
  by pat_completeness auto
termination
  by (relation "measure (\<lambda>(e, srctris, srcverts, nsrctris, tri, s). nsrctris - tri)") auto

declare subdivide_loop.simps [simp del]

text \<open>
  \<^verbatim>\<open>Filament.IcoSphere.prototype.subdivide\<close>. The lengths of both arrays are multiples
  of 3 in every icosphere the constructor makes (proved below), so the divisions
  \<^verbatim>\<open>srctris.length / 3\<close> and \<^verbatim>\<open>srcverts.length / 3\<close> are exact and are \<open>div\<close> here. The
  new arrays are filled with zeros when they are created. On an array whose length is
  not a multiple of 3 the source divides in floating point and goes on with a fraction
  (one more iteration, which reads past the end of \<open>srctris\<close>); this definition does
  not follow it there. The constructor makes no such array, and what is proved below of
  \<open>subdivide\<close> on an arbitrary icosphere is to be read for lengths that are multiples
  of 3.
\<close>

definition subdivide :: "env \<Rightarrow> icosphere \<Rightarrow> error + icosphere" where
  "subdivide e this =
     (let srctris = triangles this;
          srcverts = vertices this;
          nsrctris = length srctris div 3;
          ndsttris = nsrctris * 4;
          nsrcverts = length srcverts div 3;
          ndstverts = nsrcverts + nsrctris * 3;
          dsttris0 = replicate (ndsttris * 3) (0 :: 16 word);
          dstverts0 = replicate (ndstverts * 3) (Fin 0)
      in case typed_set dstverts0 srcverts of
           Inl err \<Rightarrow> Inl err
         | Inr dstverts1 \<Rightarrow>
             (let s = subdivide_loop e srctris srcverts nsrctris 0
                    \<lparr>srcind = 0, dstind = 0,
                     i3 = nsrcverts * 3, i4 = nsrcverts * 3 + 3, i5 = nsrcverts * 3 + 3 + 3,
                     dsttris = dsttris0, dstverts = dstverts1\<rparr>
              in Inr (this\<lparr>triangles := dsttris s, vertices := dstverts s\<rparr>)))"

subsection \<open>The constructor\<close>

definition ico_X :: real where "ico_X = 0.525731112119133606"
definition ico_Z :: real where "ico_Z = 0.850650808352039932"
definition ico_N :: real where "ico_N = 0"

text \<open>The icosahedron: the two array literals of the constructor.\<close>

definition base_vertices :: "env \<Rightarrow> number list" where
  "base_vertices e = map (\<lambda>r. fround e (Fin r))
     [- ico_X, ico_N, ico_Z, ico_X, ico_N, ico_Z, - ico_X, ico_N, - ico_Z, ico_X, ico_N, - ico_Z,
      ico_N, ico_Z, ico_X, ico_N, ico_Z, - ico_X, ico_N, - ico_Z, ico_X, ico_N, - ico_Z, - ico_X,
      ico_Z, ico_X, ico_N, - ico_Z, ico_X, ico_N, ico_Z, - ico_X, ico_N, - ico_Z, - ico_X, ico_N]"

definition base_triangles :: "16 word list" where
  "base_triangles =
     [1, 4, 0, 4, 9, 0, 4, 5, 9, 8, 5, 4, 1, 8, 4,
      1, 10, 8, 10, 3, 8, 8, 3, 5, 3, 2, 5, 3, 7, 2,
      3, 10, 7, 10, 6, 7, 6, 11, 7, 6, 0, 11, 6, 1, 0,
      10, 1, 6, 11, 0, 9, 2, 11, 9, 5, 2, 9, 11, 2, 7]"

definition icosahedron :: "env \<Rightarrow> icosphere" where
  "icosahedron e = \<lparr>vertices = base_vertices e, triangles = base_triangles, tangents = []\<rparr>"

text \<open>\<^verbatim>\<open>while (nsubdivs-- > 0) { this.subdivide(); }\<close>\<close>

function subdivide_while :: "env \<Rightarrow> int \<Rightarrow> icosphere \<Rightarrow> error + icosphere" where
  "subdivide_while e nsubdivs this =
     (if 0 < nsubdivs
      then (case subdivide e this of
              Inl err \<Rightarrow> Inl err
            | Inr this' \<Rightarrow> subdivide_while e (nsubdivs - 1) this')
      else Inr this)"
  by pat_completeness auto
termination
  by (relation "measure (\<lambda>(e, nsubdivs, this). nat nsubdivs)") auto

declare subdivide_while.simps [simp del]

text \<open>
  \<^verbatim>\<open>vec4.packSnorm16(out, src)\<close> of \<^verbatim>\<open>Filament.loadMathExtensions\<close>, where \<open>out\<close> is
  the view \<^verbatim>\<open>xs.subarray(b, b + 4)\<close> of a \<^verbatim>\<open>Uint16Array\<close>.
\<close>

definition vec4_packSnorm16 :: "(real \<Rightarrow> number) \<Rightarrow> 16 word list \<Rightarrow> nat \<Rightarrow> number list \<Rightarrow> 16 word list" where
  "vec4_packSnorm16 fl xs b src =
     xs[b := ToUint16 (packSnorm16 fl (elem src 0)),
        b + 1 := ToUint16 (packSnorm16 fl (elem src 1)),
        b + 2 := ToUint16 (packSnorm16 fl (elem src 2)),
        b + 3 := ToUint16 (packSnorm16 fl (elem src 3))]"

text \<open>The body of the loop that fills \<open>tangents\<close>, for the vertex \<open>i\<close>.\<close>

definition tangent_body :: "env \<Rightarrow> number list \<Rightarrow> nat \<Rightarrow> 16 word list \<Rightarrow> 16 word list" where
  "tangent_body e verts i tans =
     (let src = subarray verts (i * 3) (i * 3 + 3);
          n = glm3 e (vec3_normalize e src);
          b = glm3 e (vec3_cross e n [Fin 1, Fin 0, Fin 0]);
          t = glm3 e (vec3_cross e b n);
          q = glm4 e (quat_fromMat3 e
                [elem t 0, elem t 1, elem t 2, elem b 0, elem b 1, elem b 2,
                 elem n 0, elem n 1, elem n 2])
      in vec4_packSnorm16 (round64 e) tans (i * 4) q)"

function tangents_loop :: "env \<Rightarrow> number list \<Rightarrow> nat \<Rightarrow> nat \<Rightarrow> 16 word list \<Rightarrow> 16 word list" where
  "tangents_loop e verts nverts i tans =
     (if i < nverts then tangents_loop e verts nverts (i + 1) (tangent_body e verts i tans)
      else tans)"
  by pat_completeness auto
termination
  by (relation "measure (\<lambda>(e, verts, nverts, i, tans). nverts - i)") auto

declare tangents_loop.simps [simp del]

text \<open>
  \<^verbatim>\<open>Filament.IcoSphere = function(nsubdivs) { ... }\<close>. The subdivision level is an
  integer; \<^verbatim>\<open>if (nsubdivs)\<close> is the test that it is not 0.
\<close>

definition IcoSphere :: "env \<Rightarrow> int \<Rightarrow> error + icosphere" where
  "IcoSphere e nsubdivs =
     (case (if nsubdivs \<noteq> 0 then subdivide_while e nsubdivs (icosahedron e)
            else Inr (icosahedron e)) of
        Inl err \<Rightarrow> Inl err
      | Inr this \<Rightarrow>
          (let nverts = length (vertices this) div 3
           in Inr (this\<lparr>tangents :=
                 tangents_loop e (vertices this) nverts 0 (replicate (4 * nverts) 0)\<rparr>)))"

text \<open>The numbers of vertices and of triangles: a third of the length of each array.\<close>

definition nverts :: "icosphere \<Rightarrow> nat" where
  "nverts this = length (vertices this) div 3"

definition ntris :: "icosphere \<Rightarrow> nat" where
  "ntris this = length (triangles this) div 3"

subsection \<open>What one pass of the loop writes\<close>

text \<open>
  The twelve entries an iteration stores for the source triangle \<open>j\<close>, where \<open>nv\<close> is
  the number of source vertices: the three corners are copied from \<open>srctris\<close>, and the
  three new vertices have the indices \<open>nv + 3 * j\<close>, \<open>nv + 3 * j + 1\<close> and
  \<open>nv + 3 * j + 2\<close>, each reduced to 16 bits. This list is used to state what the loop
  computes.
\<close>

definition tri_group :: "16 word list \<Rightarrow> nat \<Rightarrow> nat \<Rightarrow> 16 word list" where
  "tri_group srctris nv j =
     [srctris ! (3 * j), of_nat (nv + 3 * j), of_nat (nv + 3 * j + 2),
      of_nat (nv + 3 * j), srctris ! (3 * j + 1), of_nat (nv + 3 * j + 1),
      of_nat (nv + 3 * j + 2), of_nat (nv + 3 * j), of_nat (nv + 3 * j + 1),
      srctris ! (3 * j + 2), of_nat (nv + 3 * j + 2), of_nat (nv + 3 * j + 1)]"

text \<open>
  The view \<^verbatim>\<open>srcverts.subarray(i, i + 3)\<close> for \<^verbatim>\<open>i = srctris[k] * 3\<close>: the corner a
  triangle entry refers to.
\<close>

definition corner_view :: "16 word list \<Rightarrow> number list \<Rightarrow> nat \<Rightarrow> number list" where
  "corner_view srctris srcverts k =
     subarray srcverts (unat (srctris ! k) * 3) (unat (srctris ! k) * 3 + 3)"

text \<open>
  What \<^verbatim>\<open>vec3.normalize(v, vec3.add(v, a, b))\<close> leaves in the three elements of a view
  \<open>v\<close> of a \<^verbatim>\<open>Float32Array\<close>: the sum is stored, read back and normalized, and the
  result is stored.
\<close>

definition stored_midpoint :: "env \<Rightarrow> number list \<Rightarrow> number list \<Rightarrow> number list" where
  "stored_midpoint e a b =
     (case vec3_add e a b of
        (x, y, z) \<Rightarrow>
          (case vec3_normalize e [fround e x, fround e y, fround e z] of
             (x', y', z') \<Rightarrow> [fround e x', fround e y', fround e z']))"

text \<open>
  The nine coordinates an iteration stores for the source triangle \<open>j\<close>: the stored
  midpoints of the edges from corner 0 to 1, from 1 to 2 and from 2 to 0.
\<close>

definition vert_group :: "env \<Rightarrow> 16 word list \<Rightarrow> number list \<Rightarrow> nat \<Rightarrow> number list" where
  "vert_group e srctris srcverts j =
     stored_midpoint e (corner_view srctris srcverts (3 * j)) (corner_view srctris srcverts (3 * j + 1))
     @ stored_midpoint e (corner_view srctris srcverts (3 * j + 1)) (corner_view srctris srcverts (3 * j + 2))
     @ stored_midpoint e (corner_view srctris srcverts (3 * j + 2)) (corner_view srctris srcverts (3 * j))"

text \<open>The loop variables before the iteration \<open>tri\<close>, for \<open>nv\<close> source vertices.\<close>

definition loop_inv :: "nat \<Rightarrow> nat \<Rightarrow> loop_state \<Rightarrow> bool" where
  "loop_inv nv tri s \<longleftrightarrow>
     srcind s = 3 * tri \<and> dstind s = 12 * tri \<and>
     i3 s = 3 * nv + 9 * tri \<and> i4 s = i3 s + 3 \<and> i5 s = i4 s + 3"

section \<open>Buffer wrappers\<close>

subsection \<open>The store: buffers, typed arrays, the console\<close>

text \<open>
  A typed array is a view of a buffer object: it has the buffer, a byte offset, a number
  of elements and an element kind. Two typed arrays may share a buffer, and
  \<^verbatim>\<open>Filament.Buffer\<close> asks whether its argument shares the buffer of the WASM heap, so
  buffers are objects with an identity and their bytes live in a store. A buffer is an
  \<^verbatim>\<open>ArrayBuffer\<close> or not (a \<^verbatim>\<open>SharedArrayBuffer\<close>); \<^verbatim>\<open>instanceof ArrayBuffer\<close> tells
  them apart. The element kinds are the unsigned integer ones; a signed kind holds the
  same bytes, and the float kinds are left out (converting their elements needs the
  binary32 and binary64 encodings).
\<close>

type_synonym byte = "8 word"

datatype buffer = ArrayBuffer nat | SharedArrayBuffer nat

datatype kind = Uint8 | Uint16 | Uint32

record typedarray =
  buffer :: buffer
  byteOffset :: nat
  len :: nat
  kind :: kind

fun BYTES_PER_ELEMENT :: "kind \<Rightarrow> nat" where
  "BYTES_PER_ELEMENT Uint8 = 1"
| "BYTES_PER_ELEMENT Uint16 = 2"
| "BYTES_PER_ELEMENT Uint32 = 4"

definition byteLength :: "typedarray \<Rightarrow> nat" where
  "byteLength ta = len ta * BYTES_PER_ELEMENT (kind ta)"

fun is_ArrayBuffer :: "buffer \<Rightarrow> bool" where
  "is_ArrayBuffer (ArrayBuffer i) = True"
| "is_ArrayBuffer (SharedArrayBuffer i) = False"

text \<open>What the console has been told: a failed assertion, or an error message.\<close>

datatype message = AssertionFailed | ConsoleError string

subsection \<open>The engine's descriptors and textures\<close>

text \<open>
  The enumerations of the engine that the texture helpers name.
\<close>

datatype Sampler = SAMPLER_2D | SAMPLER_CUBEMAP

datatype InternalFormat = RGB8 | RGBA8

datatype PixelDataFormat = RGB | RGBA | RGBM

datatype PixelDataType = UBYTE

text \<open>
  Modelled from the spec: \<^verbatim>\<open>Filament.driver$BufferDescriptor\<close> and
  \<^verbatim>\<open>Filament.driver$PixelBufferDescriptor\<close>, classes of the engine's bindings that are
  not among the sources. The spec: "Buffer descriptor construction: takes a
  byte-addressable typed array, produces an opaque descriptor consumed by the engine".
  A descriptor owns a block of engine memory of the byte length of the typed array it
  is constructed from; \<^verbatim>\<open>getBytes()\<close> is a view of that block. A pixel descriptor
  also records the pixel format and type it is given.
\<close>

record descriptor =
  bytes :: "byte list"

record pixel_descriptor = descriptor +
  pixel_format :: PixelDataFormat
  pixel_type :: PixelDataType

definition driver_BufferDescriptor :: "typedarray \<Rightarrow> descriptor" where
  "driver_BufferDescriptor ta = \<lparr>bytes = replicate (byteLength ta) 0\<rparr>"

definition driver_PixelBufferDescriptor :: "typedarray \<Rightarrow> PixelDataFormat \<Rightarrow> PixelDataType \<Rightarrow> pixel_descriptor" where
  "driver_PixelBufferDescriptor ta fmt dtype =
     \<lparr>bytes = replicate (byteLength ta) 0, pixel_format = fmt, pixel_type = dtype\<rparr>"

text \<open>
  Modelled from the spec: the engine's textures, which are not among the sources. The
  spec: "Texture/IndirectLight builder pattern: width, height, mip levels, sampler kind,
  internal format, RGBM flag, then a build call bound to an engine instance". A texture
  is what its builder was given, and the images set on it since, in order.
\<close>

datatype image = Image2D nat pixel_descriptor | ImageCube nat pixel_descriptor

record texture =
  width :: nat
  height :: nat
  levels :: nat
  sampler :: Sampler
  format :: InternalFormat
  rgbm :: bool
  images :: "image list"

text \<open>
  The world the helpers run in: the bytes of every buffer, the number of
  \<^verbatim>\<open>ArrayBuffer\<close>s made so far (the next one gets that number), the buffer of
  \<^verbatim>\<open>Filament.HEAPU32\<close>, the console, and the textures of the engine, a texture being
  known by its position in the list.
\<close>

record world =
  mem :: "buffer \<Rightarrow> byte list"
  fresh :: nat
  HEAPU32_buffer :: buffer
  console :: "message list"
  textures :: "texture list"

text \<open>\<^verbatim>\<open>console.assert(c)\<close> reports a failure when \<open>c\<close> is false, and goes on.\<close>

definition console_assert :: "world \<Rightarrow> bool \<Rightarrow> world" where
  "console_assert w c = (if c then w else w\<lparr>console := console w @ [AssertionFailed]\<rparr>)"

definition console_error :: "world \<Rightarrow> string \<Rightarrow> world" where
  "console_error w msg = w\<lparr>console := console w @ [ConsoleError msg]\<rparr>"

text \<open>The bytes a typed array views, and its element \<open>i\<close> (little-endian, as the heap is).\<close>

definition bytes_of :: "world \<Rightarrow> typedarray \<Rightarrow> byte list" where
  "bytes_of w ta = subarray (mem w (buffer ta)) (byteOffset ta) (byteOffset ta + byteLength ta)"

fun le_value :: "byte list \<Rightarrow> nat" where
  "le_value [] = 0"
| "le_value (b # bs) = unat b + 256 * le_value bs"

definition element :: "world \<Rightarrow> typedarray \<Rightarrow> nat \<Rightarrow> nat" where
  "element w ta i =
     (let n = BYTES_PER_ELEMENT (kind ta); first = byteOffset ta + i * n
      in le_value (subarray (mem w (buffer ta)) first (first + n)))"

text \<open>
  \<^verbatim>\<open>new Uint8Array(typedarray)\<close>: a new \<^verbatim>\<open>ArrayBuffer\<close> with one byte for each
  \<^emph>\<open>element\<close> of the argument, the element converted to 8 bits (reduced modulo 256).
\<close>

definition new_Uint8Array :: "world \<Rightarrow> typedarray \<Rightarrow> world \<times> typedarray" where
  "new_Uint8Array w ta =
     (let b = ArrayBuffer (fresh w);
          content = map (\<lambda>i. (of_nat (element w ta i) :: byte)) [0..<len ta]
      in (w\<lparr>mem := (mem w)(b := content), fresh := fresh w + 1\<rparr>,
          \<lparr>buffer = b, byteOffset = 0, len = len ta, kind = Uint8\<rparr>))"

text \<open>
  \<^verbatim>\<open>new Uint8Array(buffer, byteOffset, length)\<close>: a view, nothing is copied. The
  arguments are those of a typed array, which lies within its buffer, so the
  constructor does not throw.
\<close>

definition Uint8Array_view :: "buffer \<Rightarrow> nat \<Rightarrow> nat \<Rightarrow> typedarray" where
  "Uint8Array_view b off n = \<lparr>buffer = b, byteOffset = off, len = n, kind = Uint8\<rparr>"

subsection \<open>Buffer and PixelBuffer\<close>

text \<open>
  \<^verbatim>\<open>Filament.Buffer = function(typedarray) { ... }\<close>. The result is the world after
  the call and the descriptor, or the error that \<^verbatim>\<open>set\<close> throws.
\<close>

definition Buffer :: "world \<Rightarrow> typedarray \<Rightarrow> error + world \<times> descriptor" where
  "Buffer w typedarray =
     (let w1 = console_assert w (is_ArrayBuffer (buffer typedarray));
          w2 = console_assert w1 (0 < byteLength typedarray);
          (w3, ta) = (if HEAPU32_buffer w2 = buffer typedarray
                      then new_Uint8Array w2 typedarray else (w2, typedarray));
          bd = driver_BufferDescriptor ta;
          uint8array = Uint8Array_view (buffer ta) (byteOffset ta) (byteLength ta)
      in case typed_set (bytes bd) (bytes_of w3 uint8array) of
           Inl err \<Rightarrow> Inl err
         | Inr bs \<Rightarrow> Inr (w3, bd\<lparr>bytes := bs\<rparr>))"

text \<open>\<^verbatim>\<open>Filament.PixelBuffer = function(typedarray, format, datatype) { ... }\<close>\<close>

definition PixelBuffer :: "world \<Rightarrow> typedarray \<Rightarrow> PixelDataFormat \<Rightarrow> PixelDataType \<Rightarrow> error + world \<times> pixel_descriptor" where
  "PixelBuffer w typedarray fmt dtype =
     (let w1 = console_assert w (is_ArrayBuffer (buffer typedarray));
          w2 = console_assert w1 (0 < byteLength typedarray);
          (w3, ta) = (if HEAPU32_buffer w2 = buffer typedarray
                      then new_Uint8Array w2 typedarray else (w2, typedarray));
          bd = driver_PixelBufferDescriptor ta fmt dtype;
          uint8array = Uint8Array_view (buffer ta) (byteOffset ta) (byteLength ta)
      in case typed_set (bytes bd) (bytes_of w3 uint8array) of
           Inl err \<Rightarrow> Inl err
         | Inr bs \<Rightarrow> Inr (w3, bd\<lparr>bytes := bs\<rparr>))"

text \<open>
  A heap of four bytes and a \<^verbatim>\<open>Uint16Array\<close> of one element on it, the number 258
  (the bytes 2 and 1).
\<close>

definition heap_world :: world where
  "heap_world =
     \<lparr>mem = (\<lambda>b. [])(ArrayBuffer 0 := [2, 1, 0, 0]), fresh = 1,
      HEAPU32_buffer = ArrayBuffer 0, console = [], textures = []\<rparr>"

definition heap_u16 :: typedarray where
  "heap_u16 = \<lparr>buffer = ArrayBuffer 0, byteOffset = 0, len = 1, kind = Uint16\<rparr>"

section \<open>Texture helpers\<close>

text \<open>
  A KTX bundle as \<^verbatim>\<open>createTextureFromKtx\<close> reads it: \<^verbatim>\<open>info()\<close>,
  \<^verbatim>\<open>getNumMipLevels()\<close>, \<^verbatim>\<open>isCubemap()\<close>, and the bytes of
  \<^verbatim>\<open>getBlob([level, 0, 0])\<close> and of \<^verbatim>\<open>getCubeBlob(level)\<close>. The parser that makes a
  bundle from a descriptor (\<^verbatim>\<open>new Filament.KtxBundle\<close>) belongs to the engine and is a
  parameter, as are the two constants \<^verbatim>\<open>gl.RGB\<close> and \<^verbatim>\<open>gl.RGBA\<close> of
  \<^verbatim>\<open>Filament.ctx\<close>.
\<close>

record ktx_info =
  glInternalFormat :: int
  pixelWidth :: nat
  pixelHeight :: nat

record KtxBundle =
  info :: ktx_info
  getNumMipLevels :: nat
  isCubemap :: bool
  getBlob :: "nat \<Rightarrow> typedarray"
  getCubeBlob :: "nat \<Rightarrow> typedarray"

record gl_ctx =
  gl_RGB :: int
  gl_RGBA :: int

text \<open>
  The options dictionary: its keys \<^verbatim>\<open>ktx\<close> and \<^verbatim>\<open>rgbm\<close>. No dictionary, or an empty
  one, is no bundle and \<open>False\<close>.
\<close>

record options =
  opt_ktx :: "KtxBundle option"
  opt_rgbm :: bool

text \<open>
  Modelled from the spec: \<^verbatim>\<open>Filament.Texture.Builder() ... .build(engine)\<close>,
  \<^verbatim>\<open>setImage\<close> and \<^verbatim>\<open>setImageCube\<close>, methods of the engine that are not among the
  sources. \<open>build\<close> adds a texture without images to the engine and returns it;
  setting an image records the level and the pixel buffer on that texture.
\<close>

definition build :: "world \<Rightarrow> texture \<Rightarrow> world \<times> nat" where
  "build w t = (w\<lparr>textures := textures w @ [t]\<rparr>, length (textures w))"

definition add_image :: "world \<Rightarrow> nat \<Rightarrow> image \<Rightarrow> world" where
  "add_image w tex img =
     w\<lparr>textures := (textures w)[tex := (textures w ! tex)\<lparr>images := images (textures w ! tex) @ [img]\<rparr>]\<rparr>"

definition setImage :: "world \<Rightarrow> nat \<Rightarrow> nat \<Rightarrow> pixel_descriptor \<Rightarrow> world" where
  "setImage w tex level pixelbuffer = add_image w tex (Image2D level pixelbuffer)"

definition setImageCube :: "world \<Rightarrow> nat \<Rightarrow> nat \<Rightarrow> pixel_descriptor \<Rightarrow> world" where
  "setImageCube w tex level pixelbuffer = add_image w tex (ImageCube level pixelbuffer)"

text \<open>
  The two loops over the mip levels,
  \<^verbatim>\<open>for (var level = 0; level < nlevels; level++) { ... }\<close>: they differ in the blob
  they read and in the method they call, the arguments \<open>blob\<close> and \<open>set_image\<close> here.
\<close>

function set_levels :: "(nat \<Rightarrow> typedarray) \<Rightarrow> (world \<Rightarrow> nat \<Rightarrow> nat \<Rightarrow> pixel_descriptor \<Rightarrow> world) \<Rightarrow>
    PixelDataFormat \<Rightarrow> PixelDataType \<Rightarrow> nat \<Rightarrow> nat \<Rightarrow> nat \<Rightarrow> world \<Rightarrow> error + world" where
  "set_levels blob set_image pbformat pbtype tex nlevels level w =
     (if level < nlevels
      then (case PixelBuffer w (blob level) pbformat pbtype of
              Inl err \<Rightarrow> Inl err
            | Inr (w1, pixelbuffer) \<Rightarrow>
                set_levels blob set_image pbformat pbtype tex nlevels (level + 1)
                  (set_image w1 tex level pixelbuffer))
      else Inr w)"
  by pat_completeness auto
termination
  by (relation "measure (\<lambda>(blob, set_image, pbformat, pbtype, tex, nlevels, level, w). nlevels - level)") auto

declare set_levels.simps [simp del]

text \<open>
  \<^verbatim>\<open>const ktx = options['ktx'] || new Filament.KtxBundle(Filament.Buffer(ktxdata));\<close>
\<close>

definition open_ktx :: "(descriptor \<Rightarrow> KtxBundle) \<Rightarrow> world \<Rightarrow> typedarray \<Rightarrow> options \<Rightarrow> error + world \<times> KtxBundle" where
  "open_ktx new_KtxBundle w ktxdata opts =
     (case opt_ktx opts of
        Some ktx \<Rightarrow> Inr (w, ktx)
      | None \<Rightarrow>
          (case Buffer w ktxdata of
             Inl err \<Rightarrow> Inl err
           | Inr (w1, bd) \<Rightarrow> Inr (w1, new_KtxBundle bd)))"

text \<open>
  The function from the builder on, once the \<^verbatim>\<open>switch\<close> has chosen the three formats.
\<close>

definition build_texture :: "world \<Rightarrow> KtxBundle \<Rightarrow> bool \<Rightarrow> InternalFormat \<Rightarrow> PixelDataFormat \<Rightarrow> PixelDataType \<Rightarrow> error + world \<times> nat option" where
  "build_texture w ktx rgbm_flag texformat pbformat pbtype =
     (let nlevels = getNumMipLevels ktx;
          (w1, tex) = build w
            \<lparr>width = pixelWidth (info ktx), height = pixelHeight (info ktx), levels = nlevels,
             sampler = (if isCubemap ktx then SAMPLER_CUBEMAP else SAMPLER_2D),
             format = texformat, rgbm = rgbm_flag, images = []\<rparr>
      in case (if isCubemap ktx
               then set_levels (getCubeBlob ktx) setImageCube pbformat pbtype tex nlevels 0 w1
               else set_levels (getBlob ktx) setImage pbformat pbtype tex nlevels 0 w1) of
           Inl err \<Rightarrow> Inl err
         | Inr w2 \<Rightarrow> Inr (w2, Some tex))"

text \<open>
  \<^verbatim>\<open>Filament.createTextureFromKtx = function(ktxdata, engine, options) { ... }\<close>. The
  result is \<open>None\<close> for \<^verbatim>\<open>null\<close>, or the texture.
\<close>

definition createTextureFromKtx :: "gl_ctx \<Rightarrow> (descriptor \<Rightarrow> KtxBundle) \<Rightarrow> world \<Rightarrow> typedarray \<Rightarrow> options \<Rightarrow> error + world \<times> nat option" where
  "createTextureFromKtx gl new_KtxBundle w ktxdata opts =
     (case open_ktx new_KtxBundle w ktxdata opts of
        Inl err \<Rightarrow> Inl err
      | Inr (w1, ktx) \<Rightarrow>
          (let ktxformat = glInternalFormat (info ktx);
               rgbm_flag = opt_rgbm opts
           in if ktxformat = gl_RGB gl
              then build_texture w1 ktx rgbm_flag RGB8 RGB UBYTE
              else if ktxformat = gl_RGBA gl
              then build_texture w1 ktx rgbm_flag RGBA8 (if rgbm_flag then RGBM else RGBA) UBYTE
              else Inr (console_error w1 ''Unsupported KTX format.'', None)))"

text \<open>
  The two constants as WebGL has them, and a bundle of one level of two pixels whose
  blob is the four bytes of the heap of \<open>heap_world\<close>, in the internal format \<open>fmt\<close>.
\<close>

definition sample_gl :: gl_ctx where
  "sample_gl = \<lparr>gl_RGB = 6407, gl_RGBA = 6408\<rparr>"

definition sample_ktx :: "int \<Rightarrow> KtxBundle" where
  "sample_ktx fmt =
     \<lparr>info = \<lparr>glInternalFormat = fmt, pixelWidth = 2, pixelHeight = 1\<rparr>,
      getNumMipLevels = 1, isCubemap = False,
      getBlob = (\<lambda>level. \<lparr>buffer = ArrayBuffer 0, byteOffset = 0, len = 4, kind = Uint8\<rparr>),
      getCubeBlob = (\<lambda>level. \<lparr>buffer = ArrayBuffer 0, byteOffset = 0, len = 4, kind = Uint8\<rparr>)\<rparr>"

section \<open>A sample environment\<close>

text \<open>
  An environment in which every rounding is the identity and the glMatrix functions
  compute the exact real results on finite numbers (and \<open>NaN\<close> on anything else). The
  theorems below hold for every environment; this one instantiates them.
\<close>

fun reals :: "number list \<Rightarrow> real list option" where
  "reals [] = Some []"
| "reals (Fin r # xs) = map_option ((#) r) (reals xs)"
| "reals (x # xs) = None"

definition exact_add :: "number list \<Rightarrow> number list \<Rightarrow> number \<times> number \<times> number" where
  "exact_add a b =
     (case (reals (take 3 a), reals (take 3 b)) of
        (Some [x, y, z], Some [u, v, w]) \<Rightarrow> (Fin (x + u), Fin (y + v), Fin (z + w))
      | _ \<Rightarrow> (NaN, NaN, NaN))"

definition exact_normalize :: "number list \<Rightarrow> number \<times> number \<times> number" where
  "exact_normalize a =
     (case reals (take 3 a) of
        Some [x, y, z] \<Rightarrow>
          (let len = x * x + y * y + z * z;
               k = (if 0 < len then 1 / sqrt len else len)
           in (Fin (x * k), Fin (y * k), Fin (z * k)))
      | _ \<Rightarrow> (NaN, NaN, NaN))"

definition exact_cross :: "number list \<Rightarrow> number list \<Rightarrow> number \<times> number \<times> number" where
  "exact_cross a b =
     (case (reals (take 3 a), reals (take 3 b)) of
        (Some [x, y, z], Some [u, v, w]) \<Rightarrow>
          (Fin (y * w - z * v), Fin (z * u - x * w), Fin (x * v - y * u))
      | _ \<Rightarrow> (NaN, NaN, NaN))"

definition exact_fromMat3 :: "number list \<Rightarrow> number \<times> number \<times> number \<times> number" where
  "exact_fromMat3 m =
     (case reals (take 9 m) of
        Some [m0, m1, m2, m3, m4, m5, m6, m7, m8] \<Rightarrow>
          (let fTrace = m0 + m4 + m8 in
           if 0 < fTrace
           then (let fRoot = sqrt (fTrace + 1); k = (1 / 2) / fRoot
                 in (Fin ((m5 - m7) * k), Fin ((m6 - m2) * k), Fin ((m1 - m3) * k),
                     Fin (fRoot / 2)))
           else if m0 < m8 \<and> m4 < m8
           then (let fRoot = sqrt (m8 - m0 - m4 + 1); k = (1 / 2) / fRoot
                 in (Fin ((m2 + m6) * k), Fin ((m5 + m7) * k), Fin (fRoot / 2),
                     Fin ((m1 - m3) * k)))
           else if m0 < m4
           then (let fRoot = sqrt (m4 - m8 - m0 + 1); k = (1 / 2) / fRoot
                 in (Fin ((m3 + m1) * k), Fin (fRoot / 2), Fin ((m7 + m5) * k),
                     Fin ((m6 - m2) * k)))
           else (let fRoot = sqrt (m0 - m4 - m8 + 1); k = (1 / 2) / fRoot
                 in (Fin (fRoot / 2), Fin ((m3 + m1) * k), Fin ((m6 + m2) * k),
                     Fin ((m5 - m7) * k))))
      | _ \<Rightarrow> (NaN, NaN, NaN, NaN))"

definition sample_env :: env where
  "sample_env =
     \<lparr>round64 = Fin, fround = (\<lambda>x. x), glm_store = (\<lambda>x. x),
      vec3_add = exact_add, vec3_normalize = exact_normalize,
      vec3_cross = exact_cross, quat_fromMat3 = exact_fromMat3\<rparr>"

section \<open>Properties of packSnorm16\<close>

lemma clamp_above: "num_less (Fin 1) v \<Longrightarrow> clamp v (Fin (- 1)) (Fin 1) = Fin 1"
  by (cases v) (auto simp: clamp_def Math_min_def Math_max_def)

lemma clamp_below: "num_less v (Fin (- 1)) \<Longrightarrow> clamp v (Fin (- 1)) (Fin 1) = Fin (- 1)"
  by (cases v) (auto simp: clamp_def Math_min_def Math_max_def)

lemma clamp_endpoints:
  "clamp (Fin 1) (Fin (- 1)) (Fin 1) = Fin 1"
  "clamp (Fin (- 1)) (Fin (- 1)) (Fin 1) = Fin (- 1)"
  "clamp (Fin 0) (Fin (- 1)) (Fin 1) = Fin 0"
  by (simp_all add: clamp_def Math_min_def Math_max_def)

lemma clamp_idem: "clamp (clamp v (Fin (- 1)) (Fin 1)) (Fin (- 1)) (Fin 1) = clamp v (Fin (- 1)) (Fin 1)"
  by (cases v) (auto simp: clamp_def Math_min_def Math_max_def)

lemma clamp_inside:
  "- 1 \<le> r \<Longrightarrow> r \<le> 1 \<Longrightarrow> clamp (Fin r) (Fin (- 1)) (Fin 1) = Fin r"
  by (auto simp: clamp_def Math_min_def Math_max_def)

text \<open>
  Claim C3. \<open>packSnorm16\<close> clamps its argument to \<open>[-1, 1]\<close> and then rounds the clamped
  value times 32767: its result is that of the clamped argument, and on a finite \<open>r\<close>
  of \<open>[-1, 1]\<close> it is the rounded product. Where the rounding of products leaves the
  integers 32767, -32767 and 0 as they are (they are binary64 numbers),
  \<open>packSnorm16 1 = 32767\<close>, \<open>packSnorm16 (-1) = -32767\<close> and \<open>packSnorm16 0 = 0\<close>; and
  for every \<open>v\<close> above 1 (also \<open>Infinity\<close>) the result is that of 1, for every \<open>v\<close>
  below -1 (also \<open>-Infinity\<close>) that of -1, whatever the rounding does.
\<close>

theorem packSnorm16_clamps_then_rounds:
  "packSnorm16 fl v = packSnorm16 fl (clamp v (Fin (- 1)) (Fin 1))
   \<and> (- 1 \<le> r \<and> r \<le> 1 \<longrightarrow> packSnorm16 fl (Fin r) = Math_round (fl (r * 32767)))
   \<and> (fl 32767 = Fin 32767 \<longrightarrow> packSnorm16 fl (Fin 1) = Fin 32767)
   \<and> (fl (- 32767) = Fin (- 32767) \<longrightarrow> packSnorm16 fl (Fin (- 1)) = Fin (- 32767))
   \<and> (fl 0 = Fin 0 \<longrightarrow> packSnorm16 fl (Fin 0) = Fin 0)
   \<and> (num_less (Fin 1) v \<longrightarrow> packSnorm16 fl v = packSnorm16 fl (Fin 1))
   \<and> (num_less v (Fin (- 1)) \<longrightarrow> packSnorm16 fl v = packSnorm16 fl (Fin (- 1)))"
  by (simp add: packSnorm16_def clamp_above clamp_below clamp_endpoints clamp_idem clamp_inside)

theorem packSnorm16_clamps_then_rounds_witness:
  "packSnorm16 Fin (Fin 1) = Fin 32767
   \<and> packSnorm16 Fin (Fin (- 1)) = Fin (- 32767)
   \<and> packSnorm16 Fin (Fin 0) = Fin 0
   \<and> (- 1 :: real) \<le> 3 / 10 \<and> (3 / 10 :: real) \<le> 1 \<and> packSnorm16 Fin (Fin (3 / 10)) = Fin 9830
   \<and> num_less (Fin 1) PosInf \<and> packSnorm16 Fin PosInf = Fin 32767
   \<and> num_less (Fin (- 3)) (Fin (- 1)) \<and> packSnorm16 Fin (Fin (- 3)) = Fin (- 32767)"
proof -
  note above1 = packSnorm16_clamps_then_rounds [of Fin PosInf 0]
  note below1 = packSnorm16_clamps_then_rounds [of Fin "Fin (- 3)" "3 / 10"]
  have one: "packSnorm16 Fin (Fin 1) = Fin 32767"
    using above1 [THEN conjunct2, THEN conjunct2, THEN conjunct1] by simp
  have minus_one: "packSnorm16 Fin (Fin (- 1)) = Fin (- 32767)"
    using above1 [THEN conjunct2, THEN conjunct2, THEN conjunct2, THEN conjunct1] by simp
  have zero: "packSnorm16 Fin (Fin 0) = Fin 0"
    using above1 [THEN conjunct2, THEN conjunct2, THEN conjunct2, THEN conjunct2,
        THEN conjunct1] by simp
  have above: "packSnorm16 Fin PosInf = packSnorm16 Fin (Fin 1)"
    using above1 [THEN conjunct2, THEN conjunct2, THEN conjunct2, THEN conjunct2,
        THEN conjunct2, THEN conjunct1] by simp
  have below: "packSnorm16 Fin (Fin (- 3)) = packSnorm16 Fin (Fin (- 1))"
    using below1 [THEN conjunct2, THEN conjunct2, THEN conjunct2, THEN conjunct2,
        THEN conjunct2, THEN conjunct2] by simp
  have "packSnorm16 Fin (Fin (3 / 10)) = Math_round (Fin (3 / 10 * 32767))"
    using below1 [THEN conjunct2, THEN conjunct1] by simp
  then have inside: "packSnorm16 Fin (Fin (3 / 10)) = Fin 9830"
    by simp
  show ?thesis
    using one minus_one zero above below inside by simp
qed

section \<open>The loop of subdivide\<close>

lemma length_store3: "length (store3 conv xs b t) = length xs"
  by (cases t) simp

lemma take_store3: "k \<le> b \<Longrightarrow> take k (store3 conv xs b t) = take k xs"
  by (cases t) simp

lemma length_normalized_sum: "length (normalized_sum e dst i a b) = length dst"
  by (simp add: normalized_sum_def Let_def length_store3)

lemma take_normalized_sum: "k \<le> i \<Longrightarrow> take k (normalized_sum e dst i a b) = take k dst"
  by (simp add: normalized_sum_def Let_def take_store3)

lemma length_dstverts_body: "length (dstverts (subdivide_body e st sv s)) = length (dstverts s)"
  by (simp add: subdivide_body_def Let_def length_normalized_sum)

lemma length_dsttris_body: "length (dsttris (subdivide_body e st sv s)) = length (dsttris s)"
  by (simp add: subdivide_body_def Let_def)

text \<open>The three reads of \<open>srctris\<close> in an iteration are inside the array.\<close>

lemma loop_reads_in_range:
  "loop_inv nv tri s \<Longrightarrow> tri < length srctris div 3 \<Longrightarrow> srcind s + 2 < length srctris"
  unfolding loop_inv_def by linarith

lemma loop_inv_body: "loop_inv nv tri s \<Longrightarrow> loop_inv nv (tri + 1) (subdivide_body e st sv s)"
  by (simp add: loop_inv_def subdivide_body_def Let_def)

lemma take_dstverts_body:
  "k \<le> i3 s \<Longrightarrow> k \<le> i4 s \<Longrightarrow> k \<le> i5 s \<Longrightarrow>
   take k (dstverts (subdivide_body e st sv s)) = take k (dstverts s)"
  by (simp add: subdivide_body_def Let_def take_normalized_sum)

lemma update12_take:
  fixes xs :: "'a list"
  assumes "d + 12 \<le> length xs"
  shows "take (d + 12) (xs[d := a0, d + 1 := a1, d + 2 := a2, d + 3 := a3, d + 4 := a4,
            d + 5 := a5, d + 6 := a6, d + 7 := a7, d + 8 := a8, d + 9 := a9,
            d + 10 := a10, d + 11 := a11])
         = take d xs @ [a0, a1, a2, a3, a4, a5, a6, a7, a8, a9, a10, a11]"
    (is "?l = ?r")
proof (rule nth_equalityI)
  show "length ?l = length ?r" using assms by simp
next
  fix p assume "p < length ?l"
  then have p: "p < d + 12" by simp
  show "?l ! p = ?r ! p"
  proof (cases "p < d")
    case True
    then show ?thesis using assms by (simp add: nth_append)
  next
    case False
    then obtain k where k: "p = d + k" "k < 12" using p by (metis add_diff_inverse_nat nat_add_left_cancel_less)
    from k(2) consider "k = 0" | "k = 1" | "k = 2" | "k = 3" | "k = 4" | "k = 5" | "k = 6"
      | "k = 7" | "k = 8" | "k = 9" | "k = 10" | "k = 11" by atomize_elim presburger
    then show ?thesis
      using assms k(1) by cases (simp_all add: nth_append)
  qed
qed


lemma of_nat_unat_times3: "(of_nat (unat (w :: 16 word) * 3 div 3) :: 16 word) = w"
  by simp

lemma body_take_dsttris:
  assumes "loop_inv nv tri s" "12 * tri + 12 \<le> length (dsttris s)"
  shows "take (12 * Suc tri) (dsttris (subdivide_body e st sv s))
         = take (12 * tri) (dsttris s) @ tri_group st nv tri"
proof -
  have d: "dstind s = 12 * tri" and s: "srcind s = 3 * tri"
    and i: "i3 s = 3 * nv + 9 * tri" "i4 s = 3 * nv + 9 * tri + 3" "i5 s = 3 * nv + 9 * tri + 6"
    using assms(1) by (simp_all add: loop_inv_def)
  have q: "(3 * nv + 9 * tri) div 3 = nv + 3 * tri" "(3 * nv + 9 * tri + 3) div 3 = nv + 3 * tri + 1"
    "(3 * nv + 9 * tri + 6) div 3 = nv + 3 * tri + 2"
    by simp_all
  have n: "12 * Suc tri = 12 * tri + 12" by simp
  show ?thesis
    unfolding n subdivide_body_def Let_def loop_state.simps d s i q of_nat_unat_times3 tri_group_def
    using assms(2) by (rule update12_take)
qed

lemma loop_dsttris:
  "loop_inv nv tri s \<Longrightarrow> length (dsttris s) = 12 * n \<Longrightarrow> tri \<le> n \<Longrightarrow>
   take (12 * tri) (dsttris s) = concat (map (tri_group st nv) [0..<tri]) \<Longrightarrow>
   dsttris (subdivide_loop e st sv n tri s) = concat (map (tri_group st nv) [0..<n])"
proof (induction e st sv n tri s rule: subdivide_loop.induct)
  case (1 e st sv n tri s)
  show ?case
  proof (cases "tri < n")
    case True
    let ?s = "subdivide_body e st sv s"
    have "12 * tri + 12 \<le> length (dsttris s)" using True "1.prems"(2) by simp
    then have t: "take (12 * Suc tri) (dsttris ?s) = concat (map (tri_group st nv) [0..<Suc tri])"
      using body_take_dsttris [OF "1.prems"(1), of e st sv] "1.prems"(4) by simp
    have "dsttris (subdivide_loop e st sv n (tri + 1) ?s) = concat (map (tri_group st nv) [0..<n])"
      using "1.IH" [OF True loop_inv_body [OF "1.prems"(1)]] t True "1.prems"(2)
      by (simp add: length_dsttris_body)
    then show ?thesis using True by (subst subdivide_loop.simps) simp
  next
    case False
    then have "tri = n" using "1.prems"(3) by simp
    then show ?thesis using "1.prems"(2,4) by (subst subdivide_loop.simps) simp
  qed
qed

lemma loop_length_dstverts:
  "length (dstverts (subdivide_loop e st sv n tri s)) = length (dstverts s)"
  by (induction e st sv n tri s rule: subdivide_loop.induct)
     (subst subdivide_loop.simps, simp add: length_dstverts_body)

lemma loop_take_dstverts:
  "loop_inv nv tri s \<Longrightarrow> k \<le> 3 * nv \<Longrightarrow>
   take k (dstverts (subdivide_loop e st sv n tri s)) = take k (dstverts s)"
proof (induction e st sv n tri s rule: subdivide_loop.induct)
  case (1 e st sv n tri s)
  show ?case
  proof (cases "tri < n")
    case True
    have "take k (dstverts (subdivide_body e st sv s)) = take k (dstverts s)"
      using "1.prems" by (intro take_dstverts_body) (simp_all add: loop_inv_def)
    then show ?thesis
      using "1.IH" [OF True loop_inv_body [OF "1.prems"(1)] "1.prems"(2)] True
      by (subst subdivide_loop.simps) simp
  next
    case False
    then show ?thesis by (subst subdivide_loop.simps) simp
  qed
qed

lemma length_tri_group: "length (tri_group st nv j) = 12"
  by (simp add: tri_group_def)

lemma length_concat_groups: "length (concat (map (tri_group st nv) [0..<n])) = 12 * n"
  by (induction n) (simp_all add: length_tri_group)

lemma subdivide_Inr:
  assumes "subdivide e this = Inr this'"
  shows "triangles this' = concat (map (tri_group (triangles this) (nverts this)) [0..<ntris this])"
    and "length (vertices this') = 3 * (nverts this + 3 * ntris this)"
    and "take (3 * nverts this) (vertices this') = take (3 * nverts this) (vertices this)"
    and "tangents this' = tangents this"
proof -
  define nt where "nt = length (triangles this) div 3"
  define nv where "nv = length (vertices this) div 3"
  define dv where "dv = vertices this @ drop (length (vertices this)) (replicate ((nv + nt * 3) * 3) (Fin 0))"
  define s0 where "s0 = \<lparr>srcind = 0, dstind = 0, i3 = nv * 3, i4 = nv * 3 + 3, i5 = nv * 3 + 3 + 3,
      dsttris = replicate (nt * 4 * 3) (0 :: 16 word), dstverts = dv\<rparr>"
  define s where "s = subdivide_loop e (triangles this) (vertices this) nt 0 s0"
  have fits: "length (vertices this) \<le> (nv + nt * 3) * 3"
    using assms unfolding subdivide_def Let_def typed_set_def nt_def nv_def
    by (auto split: if_splits)
  then have set_ok: "typed_set (replicate ((nv + nt * 3) * 3) (Fin 0)) (vertices this) = Inr dv"
    by (simp add: typed_set_def dv_def)
  have "subdivide e this = Inr (this\<lparr>triangles := dsttris s, vertices := dstverts s\<rparr>)"
    unfolding subdivide_def Let_def nt_def [symmetric] nv_def [symmetric] set_ok
    by (simp add: s_def s0_def)
  then have r: "this' = this\<lparr>triangles := dsttris s, vertices := dstverts s\<rparr>"
    using assms by simp
  have inv: "loop_inv nv 0 s0" by (simp add: loop_inv_def s0_def)
  have len0: "length (dsttris s0) = 12 * nt" by (simp add: s0_def)
  have take0: "take (12 * 0) (dsttris s0) = concat (map (tri_group (triangles this) nv) [0..<0])"
    by simp
  have "dsttris s = concat (map (tri_group (triangles this) nv) [0..<nt])"
    unfolding s_def by (rule loop_dsttris [OF inv len0 _ take0]) simp
  then show "triangles this' = concat (map (tri_group (triangles this) (nverts this)) [0..<ntris this])"
    by (simp add: r nverts_def ntris_def nv_def nt_def)
  have "length (dstverts s) = length dv"
    unfolding s_def by (simp add: loop_length_dstverts s0_def)
  also have "\<dots> = (nv + nt * 3) * 3" using fits by (simp add: dv_def)
  finally show "length (vertices this') = 3 * (nverts this + 3 * ntris this)"
    by (simp add: r nverts_def ntris_def nv_def nt_def)
  have "take (3 * nv) (dstverts s) = take (3 * nv) (dstverts s0)"
    unfolding s_def by (rule loop_take_dstverts [OF inv]) simp
  also have "\<dots> = take (3 * nv) (vertices this)"
    by (simp add: s0_def dv_def nv_def)
  finally show "take (3 * nverts this) (vertices this') = take (3 * nverts this) (vertices this)"
    by (simp add: r nverts_def nv_def)
  show "tangents this' = tangents this"
    by (simp add: r)
qed

lemma subdivide_total:
  assumes "length (vertices this) mod 3 = 0"
  shows "\<exists>this'. subdivide e this = Inr this'"
proof -
  have "length (vertices this) = 3 * (length (vertices this) div 3)"
    using assms by presburger
  then have "\<not> (length (vertices this) div 3 + length (triangles this) div 3 * 3) * 3 < length (vertices this)"
    by (simp add: add_mult_distrib)
  then show ?thesis
    by (simp add: subdivide_def Let_def typed_set_def)
qed

section \<open>Counting vertices and triangles\<close>

lemma subdivide_counts:
  assumes "subdivide e this = Inr this'"
  shows "ntris this' = 4 * ntris this" "nverts this' = nverts this + 3 * ntris this"
    "length (triangles this') = 3 * (4 * ntris this)" "length (vertices this') mod 3 = 0"
  using subdivide_Inr(1,2) [OF assms]
  by (simp_all add: length_concat_groups ntris_def nverts_def)

lemma subdivide_tangents:
  "subdivide e (this\<lparr>tangents := t\<rparr>) =
     (case subdivide e this of Inl err \<Rightarrow> Inl err | Inr r \<Rightarrow> Inr (r\<lparr>tangents := t\<rparr>))"
  by (simp add: subdivide_def Let_def typed_set_def)

lemma subdivide_while_0: "n \<le> 0 \<Longrightarrow> subdivide_while e n this = Inr this"
  by (subst subdivide_while.simps) simp

lemma subdivide_while_counts:
  "length (vertices this) mod 3 = 0 \<Longrightarrow>
   \<exists>r. subdivide_while e n this = Inr r
     \<and> ntris r = ntris this * 4 ^ nat n
     \<and> nverts r = nverts this + ntris this * (4 ^ nat n - 1)
     \<and> length (vertices r) mod 3 = 0
     \<and> (0 < n \<or> length (triangles this) mod 3 = 0 \<longrightarrow> length (triangles r) mod 3 = 0)"
proof (induction e n this rule: subdivide_while.induct)
  case (1 e n this)
  show ?case
  proof (cases "0 < n")
    case False
    then show ?thesis using "1.prems" by (simp add: subdivide_while_0)
  next
    case True
    obtain this1 where s1: "subdivide e this = Inr this1"
      using subdivide_total [OF "1.prems"] by blast
    note c = subdivide_counts [OF s1]
    have "\<exists>r. subdivide_while e (n - 1) this1 = Inr r
        \<and> ntris r = ntris this1 * 4 ^ nat (n - 1)
        \<and> nverts r = nverts this1 + ntris this1 * (4 ^ nat (n - 1) - 1)
        \<and> length (vertices r) mod 3 = 0
        \<and> (0 < n - 1 \<or> length (triangles this1) mod 3 = 0 \<longrightarrow> length (triangles r) mod 3 = 0)"
      by (rule "1.IH" [OF True s1 c(4)])
    then obtain r where rr: "subdivide_while e (n - 1) this1 = Inr r
        \<and> ntris r = ntris this1 * 4 ^ nat (n - 1)
        \<and> nverts r = nverts this1 + ntris this1 * (4 ^ nat (n - 1) - 1)
        \<and> length (vertices r) mod 3 = 0
        \<and> (0 < n - 1 \<or> length (triangles this1) mod 3 = 0 \<longrightarrow> length (triangles r) mod 3 = 0)"
      by (rule exE)
    note r = rr [THEN conjunct1] rr [THEN conjunct2, THEN conjunct1]
      rr [THEN conjunct2, THEN conjunct2, THEN conjunct1]
      rr [THEN conjunct2, THEN conjunct2, THEN conjunct2, THEN conjunct1]
      rr [THEN conjunct2, THEN conjunct2, THEN conjunct2, THEN conjunct2]
    have n: "nat n = Suc (nat (n - 1))" using True by simp
    have w: "subdivide_while e n this = Inr r"
      using True s1 r(1) by (subst subdivide_while.simps) simp
    obtain k where k: "(4::nat) ^ nat (n - 1) = Suc k"
      by (metis not0_implies_Suc power_not_zero zero_neq_numeral)
    have "nverts r = nverts this + 3 * ntris this + 4 * ntris this * (4 ^ nat (n - 1) - 1)"
      using r(3) c by simp
    also have "\<dots> = nverts this + ntris this * (4 * 4 ^ nat (n - 1) - 1)"
      unfolding k by (simp add: algebra_simps)
    finally have v: "nverts r = nverts this + ntris this * (4 ^ nat n - 1)"
      by (simp add: n)
    have t: "ntris r = ntris this * 4 ^ nat n" using r(2) c(1) by (simp add: n)
    have "length (triangles r) mod 3 = 0" using r(5) c(3) by simp
    then show ?thesis using w v t r(4) by simp
  qed
qed

lemma subdivide_while_last:
  "0 < n \<Longrightarrow> subdivide_while e n this =
     (case subdivide_while e (n - 1) this of Inl err \<Rightarrow> Inl err | Inr m \<Rightarrow> subdivide e m)"
proof (induction e n this rule: subdivide_while.induct)
  case (1 e n this)
  show ?case
  proof (cases "subdivide e this")
    case (Inl err)
    have l: "subdivide_while e n this = Inl err"
      using "1.prems" Inl by (subst subdivide_while.simps) simp
    have "subdivide_while e (n - 1) this = (if 0 < n - 1 then Inl err else Inr this)"
      using Inl by (subst subdivide_while.simps) simp
    then show ?thesis using l Inl by simp
  next
    case (Inr this1)
    show ?thesis
    proof (cases "0 < n - 1")
      case True
      have "subdivide_while e n this = subdivide_while e (n - 1) this1"
        using "1.prems" Inr by (subst subdivide_while.simps) simp
      also have "\<dots> = (case subdivide_while e (n - 1 - 1) this1 of Inl err \<Rightarrow> Inl err | Inr m \<Rightarrow> subdivide e m)"
        using "1.IH" [OF "1.prems" Inr True] .
      also have "subdivide_while e (n - 1 - 1) this1 = subdivide_while e (n - 1) this"
        using True Inr by (subst (2) subdivide_while.simps) simp
      finally show ?thesis .
    next
      case False
      then have n: "n = 1" using "1.prems" by simp
      show ?thesis unfolding n
        by (subst subdivide_while.simps) (simp add: Inr subdivide_while_0)
    qed
  qed
qed

lemma length_tangent_body: "length (tangent_body e verts i tans) = length tans"
  by (simp add: tangent_body_def Let_def vec4_packSnorm16_def)

lemma length_tangents_loop: "length (tangents_loop e verts nv i tans) = length tans"
  by (induction e verts nv i tans rule: tangents_loop.induct)
     (subst tangents_loop.simps, simp add: length_tangent_body)

lemma IcoSphere_eq:
  "IcoSphere e n =
     (case subdivide_while e n (icosahedron e) of
        Inl err \<Rightarrow> Inl err
      | Inr this \<Rightarrow> Inr (this\<lparr>tangents :=
          tangents_loop e (vertices this) (nverts this) 0 (replicate (4 * nverts this) 0)\<rparr>))"
  by (cases "n = 0") (simp_all add: IcoSphere_def subdivide_while_0 Let_def nverts_def split: sum.splits)

lemma icosahedron_counts:
  "length (vertices (icosahedron e)) = 36" "length (triangles (icosahedron e)) = 60"
  "nverts (icosahedron e) = 12" "ntris (icosahedron e) = 20"
  by (simp_all add: icosahedron_def base_vertices_def base_triangles_def nverts_def ntris_def)

text \<open>The icosphere of level n, before its tangents are assigned.\<close>

lemma IcoSphere_mesh:
  "\<exists>m. subdivide_while e n (icosahedron e) = Inr m
     \<and> IcoSphere e n = Inr (m\<lparr>tangents :=
          tangents_loop e (vertices m) (nverts m) 0 (replicate (4 * nverts m) 0)\<rparr>)
     \<and> ntris m = 20 * 4 ^ nat n
     \<and> nverts m = 12 + 20 * (4 ^ nat n - 1)
     \<and> length (vertices m) mod 3 = 0 \<and> length (triangles m) mod 3 = 0"
proof -
  have "length (vertices (icosahedron e)) mod 3 = 0" by (simp add: icosahedron_counts)
  from subdivide_while_counts [OF this, of e n]
  obtain r where rr: "subdivide_while e n (icosahedron e) = Inr r
     \<and> ntris r = ntris (icosahedron e) * 4 ^ nat n
     \<and> nverts r = nverts (icosahedron e) + ntris (icosahedron e) * (4 ^ nat n - 1)
     \<and> length (vertices r) mod 3 = 0
     \<and> (0 < n \<or> length (triangles (icosahedron e)) mod 3 = 0 \<longrightarrow> length (triangles r) mod 3 = 0)"
    by (rule exE)
  note r = rr [THEN conjunct1] rr [THEN conjunct2, THEN conjunct1]
    rr [THEN conjunct2, THEN conjunct2, THEN conjunct1]
    rr [THEN conjunct2, THEN conjunct2, THEN conjunct2, THEN conjunct1]
    rr [THEN conjunct2, THEN conjunct2, THEN conjunct2, THEN conjunct2]
  have "length (triangles r) mod 3 = 0" using r(5) by (simp add: icosahedron_counts)
  then show ?thesis using r(1-4) by (simp add: IcoSphere_eq icosahedron_counts)
qed

section \<open>Properties of the icosphere\<close>

lemma counts_tangents [simp]:
  "nverts (this\<lparr>tangents := t\<rparr>) = nverts this" "ntris (this\<lparr>tangents := t\<rparr>) = ntris this"
  by (simp_all add: nverts_def ntris_def)

text \<open>Two consecutive levels: the icosphere of level n is the subdivided icosphere of level n - 1.\<close>

lemma IcoSphere_step:
  assumes "0 < n"
  shows "\<exists>p m s. IcoSphere e (n - 1) = Inr p \<and> subdivide e p = Inr m \<and> IcoSphere e n = Inr s
           \<and> vertices s = vertices m \<and> triangles s = triangles m"
proof -
  obtain mp where mp: "subdivide_while e (n - 1) (icosahedron e) = Inr mp"
    and p: "IcoSphere e (n - 1) = Inr (mp\<lparr>tangents :=
          tangents_loop e (vertices mp) (nverts mp) 0 (replicate (4 * nverts mp) 0)\<rparr>)"
    using IcoSphere_mesh [of e "n - 1"] by (elim exE conjE)
  obtain mn where mn: "subdivide_while e n (icosahedron e) = Inr mn"
    and s: "IcoSphere e n = Inr (mn\<lparr>tangents :=
          tangents_loop e (vertices mn) (nverts mn) 0 (replicate (4 * nverts mn) 0)\<rparr>)"
    using IcoSphere_mesh [of e n] by (elim exE conjE)
  have "subdivide e mp = Inr mn"
    using subdivide_while_last [OF assms, of e "icosahedron e"] mp mn by simp
  then have "subdivide e (mp\<lparr>tangents :=
          tangents_loop e (vertices mp) (nverts mp) 0 (replicate (4 * nverts mp) 0)\<rparr>)
      = Inr (mn\<lparr>tangents :=
          tangents_loop e (vertices mp) (nverts mp) 0 (replicate (4 * nverts mp) 0)\<rparr>)"
    by (simp add: subdivide_tangents)
  with p s show ?thesis by simp
qed

text \<open>
  Claim C2, as amended. For every subdivision count \<open>n\<close>, \<open>IcoSphere n\<close> has
  \<open>12 + 20 * (4 ^ n - 1)\<close> vertices: \<open>subdivide\<close> allocates three new vertices for every
  triangle and shares none between the two triangles of an edge
  (\<^verbatim>\<open>ndstverts = nsrcverts + nsrctris * 3\<close>).
\<close>

theorem IcoSphere_vertex_count:
  "\<exists>s. IcoSphere e n = Inr s \<and> nverts s = 12 + 20 * (4 ^ nat n - 1)"
  using IcoSphere_mesh [of e n] by auto

text \<open>
  Claim C8. For every subdivision count \<open>n\<close>, the arrays of \<open>IcoSphere n\<close> have the
  lengths of their shape: the lengths of \<open>vertices\<close> and of \<open>triangles\<close> are multiples
  of 3, and \<open>tangents\<close> has four entries for each vertex.
\<close>

theorem IcoSphere_shape:
  "\<exists>s. IcoSphere e n = Inr s
     \<and> length (vertices s) mod 3 = 0 \<and> length (triangles s) mod 3 = 0
     \<and> length (tangents s) = 4 * (length (vertices s) div 3)"
  using IcoSphere_mesh [of e n] by (auto simp: length_tangents_loop nverts_def)

lemma IcoSphere_vertices_mod3:
  "IcoSphere e n = Inr p \<Longrightarrow> length (vertices p) mod 3 = 0"
  using IcoSphere_mesh [of e n] by auto

text \<open>
  Claim C10. A call of \<open>subdivide\<close> (on vertices whose number of coordinates is a
  multiple of 3, as in every icosphere) returns, and the first \<open>3 * nsrcverts\<close> entries
  of the new vertices are the old vertices, element for element. So from one level to
  the next a vertex keeps its index and its coordinates.
\<close>

theorem subdivide_preserves_vertices:
  "(length (vertices this) mod 3 = 0 \<longrightarrow>
      (\<exists>this'. subdivide e this = Inr this'
         \<and> take (3 * nverts this) (vertices this') = vertices this))
   \<and> (0 \<le> n \<longrightarrow>
      (\<exists>p s. IcoSphere e n = Inr p \<and> IcoSphere e (n + 1) = Inr s
         \<and> take (3 * nverts p) (vertices s) = vertices p))"
proof (intro conjI impI)
  assume m: "length (vertices this) mod 3 = 0"
  from subdivide_total [OF m, of e] obtain this' where s: "subdivide e this = Inr this'"
    by (rule exE)
  have "3 * nverts this = length (vertices this)"
    using m unfolding nverts_def by presburger
  then have "take (3 * nverts this) (vertices this') = vertices this"
    using subdivide_Inr(3) [OF s] by simp
  with s show "\<exists>this'. subdivide e this = Inr this'
         \<and> take (3 * nverts this) (vertices this') = vertices this"
    by blast
next
  assume "0 \<le> n"
  then have "0 < n + 1" by simp
  from IcoSphere_step [OF this, of e] obtain p m s where
    pms: "IcoSphere e n = Inr p" "subdivide e p = Inr m" "IcoSphere e (n + 1) = Inr s"
      "vertices s = vertices m"
    by auto
  have "3 * nverts p = length (vertices p)"
    using IcoSphere_vertices_mod3 [OF pms(1)] unfolding nverts_def by presburger
  then have "take (3 * nverts p) (vertices s) = vertices p"
    using subdivide_Inr(3) [OF pms(2)] pms(4) by simp
  with pms show "\<exists>p s. IcoSphere e n = Inr p \<and> IcoSphere e (n + 1) = Inr s
         \<and> take (3 * nverts p) (vertices s) = vertices p"
    by blast
qed

lemma concat_groups_split:
  assumes "j < n"
  shows "concat (map (tri_group st nv) [0..<n])
     = concat (map (tri_group st nv) [0..<j]) @ tri_group st nv j
       @ concat (map (tri_group st nv) [Suc j..<n])"
proof -
  have n: "n = j + (n - j)" using assms by simp
  have "[0..<j + (n - j)] = [0..<j] @ [j..<j + (n - j)]"
    by (rule upt_add_eq_append) simp
  moreover have "[j..<j + (n - j)] = j # [Suc j..<j + (n - j)]"
    by (rule upt_conv_Cons) (use assms in simp)
  ultimately have "[0..<n] = [0..<j] @ j # [Suc j..<n]"
    using n by simp
  then show ?thesis by simp
qed

lemma subarray_groups:
  "j < n \<Longrightarrow> subarray (concat (map (tri_group st nv) [0..<n])) (12 * j) (12 * j + 12)
     = tri_group st nv j"
  by (simp add: concat_groups_split subarray_def length_concat_groups length_tri_group)

lemma set_concat_groups:
  "w \<in> set (concat (map (tri_group st nv) [0..<n])) \<Longrightarrow>
   \<exists>j<n. w \<in> {st ! (3 * j), st ! (3 * j + 1), st ! (3 * j + 2),
              of_nat (nv + 3 * j), of_nat (nv + 3 * j + 1), of_nat (nv + 3 * j + 2)}"
  by (auto simp: tri_group_def)

lemma unat_of_nat16_le: "unat (of_nat x :: 16 word) \<le> x"
  by (simp add: unat_of_nat)

lemma subdivide_indices_below:
  assumes s: "subdivide e this = Inr this'"
    and v: "\<forall>w \<in> set (triangles this). unat w < nverts this"
  shows "\<forall>w \<in> set (triangles this'). unat w < nverts this'"
proof
  fix w assume "w \<in> set (triangles this')"
  then obtain j where j: "j < ntris this"
    and w: "w \<in> {triangles this ! (3 * j), triangles this ! (3 * j + 1), triangles this ! (3 * j + 2),
              of_nat (nverts this + 3 * j), of_nat (nverts this + 3 * j + 1),
              of_nat (nverts this + 3 * j + 2)}"
    using set_concat_groups [of w "triangles this" "nverts this" "ntris this"]
    unfolding subdivide_Inr(1) [OF s] by blast
  have n: "nverts this' = nverts this + 3 * ntris this"
    by (rule subdivide_counts(2) [OF s])
  have len: "3 * j + 2 < length (triangles this)"
    using j unfolding ntris_def by linarith
  have old: "unat (triangles this ! k) < nverts this'" if "k \<le> 3 * j + 2" for k
  proof -
    have "triangles this ! k \<in> set (triangles this)" using that len by simp
    then show ?thesis using v n by fastforce
  qed
  have new: "unat (of_nat (nverts this + 3 * j + c) :: 16 word) < nverts this'" if "c \<le> 2" for c
  proof -
    have "unat (of_nat (nverts this + 3 * j + c) :: 16 word) \<le> nverts this + 3 * j + c"
      by (rule unat_of_nat16_le)
    then show ?thesis using that j n by linarith
  qed
  from w have "w = triangles this ! (3 * j) \<or> w = triangles this ! (3 * j + 1)
    \<or> w = triangles this ! (3 * j + 2) \<or> w = of_nat (nverts this + 3 * j + 0)
    \<or> w = of_nat (nverts this + 3 * j + 1) \<or> w = of_nat (nverts this + 3 * j + 2)"
    by (simp only: insert_iff empty_iff add_0_right) blast
  moreover have "unat (triangles this ! (3 * j)) < nverts this'" by (rule old) simp
  moreover have "unat (triangles this ! (3 * j + 1)) < nverts this'" by (rule old) simp
  moreover have "unat (triangles this ! (3 * j + 2)) < nverts this'" by (rule old) simp
  moreover have "unat (of_nat (nverts this + 3 * j + 0) :: 16 word) < nverts this'" by (rule new) simp
  moreover have "unat (of_nat (nverts this + 3 * j + 1) :: 16 word) < nverts this'" by (rule new) simp
  moreover have "unat (of_nat (nverts this + 3 * j + 2) :: 16 word) < nverts this'" by (rule new) simp
  ultimately show "unat w < nverts this'"
    by blast
qed

lemma while_indices_below:
  "\<forall>w \<in> set (triangles this). unat w < nverts this \<Longrightarrow>
   subdivide_while e n this = Inr r \<Longrightarrow> \<forall>w \<in> set (triangles r). unat w < nverts r"
proof (induction e n this rule: subdivide_while.induct)
  case (1 e n this)
  show ?case
  proof (cases "0 < n")
    case False
    then have "r = this" using "1.prems"(2) by (simp add: subdivide_while_0)
    then show ?thesis using "1.prems"(1) by simp
  next
    case True
    show ?thesis
    proof (cases "subdivide e this")
      case (Inl err)
      then have "subdivide_while e n this = Inl err"
        using True by (subst subdivide_while.simps) simp
      then show ?thesis using "1.prems"(2) by simp
    next
      case (Inr this1)
      have w: "subdivide_while e (n - 1) this1 = Inr r"
        using "1.prems"(2) True Inr by (subst (asm) subdivide_while.simps) simp
      show ?thesis
        by (rule "1.IH" [OF True Inr subdivide_indices_below [OF Inr "1.prems"(1)] w])
    qed
  qed
qed

lemma icosahedron_indices_below:
  "\<forall>w \<in> set (triangles (icosahedron e)). unat w < nverts (icosahedron e)"
  by (simp add: icosahedron_counts) (simp add: icosahedron_def base_triangles_def)

lemma IcoSphere_indices_below:
  assumes "IcoSphere e n = Inr s"
  shows "\<forall>w \<in> set (triangles s). unat w < nverts s"
proof -
  obtain m where m: "subdivide_while e n (icosahedron e) = Inr m"
    and s: "IcoSphere e n = Inr (m\<lparr>tangents :=
          tangents_loop e (vertices m) (nverts m) 0 (replicate (4 * nverts m) 0)\<rparr>)"
    using IcoSphere_mesh [of e n] by (elim exE conjE)
  have "\<forall>w \<in> set (triangles m). unat w < nverts m"
    by (rule while_indices_below [OF icosahedron_indices_below m])
  then show ?thesis using assms s by auto
qed

lemma map_unat_tri_group:
  "map unat (tri_group st nv j) =
     [unat (st ! (3 * j)), (nv + 3 * j) mod 2 ^ 16, (nv + 3 * j + 2) mod 2 ^ 16,
      (nv + 3 * j) mod 2 ^ 16, unat (st ! (3 * j + 1)), (nv + 3 * j + 1) mod 2 ^ 16,
      (nv + 3 * j + 2) mod 2 ^ 16, (nv + 3 * j) mod 2 ^ 16, (nv + 3 * j + 1) mod 2 ^ 16,
      unat (st ! (3 * j + 2)), (nv + 3 * j + 2) mod 2 ^ 16, (nv + 3 * j + 1) mod 2 ^ 16]"
  unfolding tri_group_def list.map unat_of_nat by simp

lemma nth_concat_groups_1:
  assumes "j < n"
  shows "concat (map (tri_group st nv) [0..<n]) ! (12 * j + 1) = of_nat (nv + 3 * j)"
proof -
  have "concat (map (tri_group st nv) [0..<n]) ! (12 * j + 1)
      = (tri_group st nv j @ concat (map (tri_group st nv) [Suc j..<n])) ! 1"
    unfolding concat_groups_split [OF assms]
    by (simp add: nth_append length_concat_groups)
  also have "\<dots> = of_nat (nv + 3 * j)"
    by (simp add: tri_group_def)
  finally show ?thesis .
qed

lemma unat_of_nat16: "unat (of_nat x :: 16 word) = x mod 2 ^ 16"
  by (simp add: unat_of_nat)

lemma pow4_le: "n \<le> 5 \<Longrightarrow> (4::nat) ^ nat n \<le> 1024"
proof -
  assume "n \<le> 5"
  then have "(4::nat) ^ nat n \<le> 4 ^ 5" by (intro power_increasing) simp_all
  then show ?thesis by simp
qed

lemma pow4_ge: "6 \<le> n \<Longrightarrow> (4096::nat) \<le> 4 ^ nat n"
proof -
  assume "6 \<le> n"
  then have "(4::nat) ^ 6 \<le> 4 ^ nat n" by (intro power_increasing) simp_all
  then show ?thesis by simp
qed

text \<open>
  Claim C9. For every level \<open>n \<le> 5\<close>, every entry of \<open>triangles\<close> is below the number
  of vertices. At a level \<open>n > 0\<close>, the twelve entries of \<open>triangles\<close> made of the
  triangle \<open>tri\<close> of the level before are its three corners and the indices
  \<open>nverts p + 3 * tri\<close>, \<open>+ 1\<close> and \<open>+ 2\<close> of the three new vertices, each stored
  modulo \<open>2 ^ 16\<close>. Up to level 5 every new index is below \<open>2 ^ 16\<close>, so it is stored as
  it is. From level 6 on the number of vertices exceeds \<open>2 ^ 16\<close> and some new index is
  at least \<open>2 ^ 16\<close>: the entry stored for it is the index reduced modulo \<open>2 ^ 16\<close>,
  another vertex than the one just made. (A reduced index is smaller than the index, so
  an entry stays below the number of vertices at every level: the lemma
  \<open>IcoSphere_indices_below\<close>. What is lost from level 6 on is the vertex it refers to.)
\<close>

theorem IcoSphere_triangle_indices:
  "\<exists>s. IcoSphere e n = Inr s
     \<and> (n \<le> 5 \<longrightarrow> (\<forall>w \<in> set (triangles s). unat w < nverts s))
     \<and> (0 < n \<longrightarrow> (\<exists>p. IcoSphere e (n - 1) = Inr p
          \<and> (\<forall>tri < ntris p.
                map unat (subarray (triangles s) (12 * tri) (12 * tri + 12)) =
                  [unat (triangles p ! (3 * tri)),
                   (nverts p + 3 * tri) mod 2 ^ 16, (nverts p + 3 * tri + 2) mod 2 ^ 16,
                   (nverts p + 3 * tri) mod 2 ^ 16,
                   unat (triangles p ! (3 * tri + 1)), (nverts p + 3 * tri + 1) mod 2 ^ 16,
                   (nverts p + 3 * tri + 2) mod 2 ^ 16,
                   (nverts p + 3 * tri) mod 2 ^ 16, (nverts p + 3 * tri + 1) mod 2 ^ 16,
                   unat (triangles p ! (3 * tri + 2)),
                   (nverts p + 3 * tri + 2) mod 2 ^ 16, (nverts p + 3 * tri + 1) mod 2 ^ 16])
          \<and> (n \<le> 5 \<longrightarrow> (\<forall>tri < ntris p. nverts p + 3 * tri + 2 < 2 ^ 16))
          \<and> (6 \<le> n \<longrightarrow> 2 ^ 16 < nverts s
                \<and> (\<exists>tri < ntris p. 2 ^ 16 \<le> nverts p + 3 * tri
                      \<and> unat (triangles s ! (12 * tri + 1)) = (nverts p + 3 * tri) mod 2 ^ 16
                      \<and> unat (triangles s ! (12 * tri + 1)) \<noteq> nverts p + 3 * tri))))"
proof -
  obtain s where s: "IcoSphere e n = Inr s" and vs: "nverts s = 12 + 20 * (4 ^ nat n - 1)"
    using IcoSphere_mesh [of e n] by auto
  have below: "\<forall>w \<in> set (triangles s). unat w < nverts s"
    by (rule IcoSphere_indices_below [OF s])
  have step: "\<exists>p. IcoSphere e (n - 1) = Inr p
          \<and> (\<forall>tri < ntris p.
                map unat (subarray (triangles s) (12 * tri) (12 * tri + 12)) =
                  [unat (triangles p ! (3 * tri)),
                   (nverts p + 3 * tri) mod 2 ^ 16, (nverts p + 3 * tri + 2) mod 2 ^ 16,
                   (nverts p + 3 * tri) mod 2 ^ 16,
                   unat (triangles p ! (3 * tri + 1)), (nverts p + 3 * tri + 1) mod 2 ^ 16,
                   (nverts p + 3 * tri + 2) mod 2 ^ 16,
                   (nverts p + 3 * tri) mod 2 ^ 16, (nverts p + 3 * tri + 1) mod 2 ^ 16,
                   unat (triangles p ! (3 * tri + 2)),
                   (nverts p + 3 * tri + 2) mod 2 ^ 16, (nverts p + 3 * tri + 1) mod 2 ^ 16])
          \<and> (n \<le> 5 \<longrightarrow> (\<forall>tri < ntris p. nverts p + 3 * tri + 2 < 2 ^ 16))
          \<and> (6 \<le> n \<longrightarrow> 2 ^ 16 < nverts s
                \<and> (\<exists>tri < ntris p. 2 ^ 16 \<le> nverts p + 3 * tri
                      \<and> unat (triangles s ! (12 * tri + 1)) = (nverts p + 3 * tri) mod 2 ^ 16
                      \<and> unat (triangles s ! (12 * tri + 1)) \<noteq> nverts p + 3 * tri))"
    if pos: "0 < n"
  proof -
    from IcoSphere_step [OF pos, of e] obtain p m where
      p: "IcoSphere e (n - 1) = Inr p" and m: "subdivide e p = Inr m"
      and vm': "vertices s = vertices m" and tm: "triangles s = triangles m"
      using s by auto
    have ts: "triangles s = concat (map (tri_group (triangles p) (nverts p)) [0..<ntris p])"
      using subdivide_Inr(1) [OF m] tm by simp
    have vm: "nverts s = nverts p + 3 * ntris p"
      using subdivide_counts(2) [OF m] vm' by (simp add: nverts_def)
    have tp: "0 < ntris p"
    proof -
      have "ntris p = 20 * 4 ^ nat (n - 1)"
        using IcoSphere_mesh [of e "n - 1"] p by auto
      then show ?thesis by simp
    qed
    have groups: "\<forall>tri < ntris p.
                map unat (subarray (triangles s) (12 * tri) (12 * tri + 12)) =
                  [unat (triangles p ! (3 * tri)),
                   (nverts p + 3 * tri) mod 2 ^ 16, (nverts p + 3 * tri + 2) mod 2 ^ 16,
                   (nverts p + 3 * tri) mod 2 ^ 16,
                   unat (triangles p ! (3 * tri + 1)), (nverts p + 3 * tri + 1) mod 2 ^ 16,
                   (nverts p + 3 * tri + 2) mod 2 ^ 16,
                   (nverts p + 3 * tri) mod 2 ^ 16, (nverts p + 3 * tri + 1) mod 2 ^ 16,
                   unat (triangles p ! (3 * tri + 2)),
                   (nverts p + 3 * tri + 2) mod 2 ^ 16, (nverts p + 3 * tri + 1) mod 2 ^ 16]"
      unfolding ts by (intro allI impI) (simp only: subarray_groups map_unat_tri_group)
    have small: "\<forall>tri < ntris p. nverts p + 3 * tri + 2 < 2 ^ 16" if "n \<le> 5"
    proof (intro allI impI)
      fix tri assume "tri < ntris p"
      then have "nverts p + 3 * tri + 2 < nverts s" using vm by linarith
      moreover have "nverts s \<le> 12 + 20 * (1024 - 1)"
        using pow4_le [OF that] vs by simp
      ultimately show "nverts p + 3 * tri + 2 < 2 ^ 16" by simp
    qed
    have large: "2 ^ 16 < nverts s
                \<and> (\<exists>tri < ntris p. 2 ^ 16 \<le> nverts p + 3 * tri
                      \<and> unat (triangles s ! (12 * tri + 1)) = (nverts p + 3 * tri) mod 2 ^ 16
                      \<and> unat (triangles s ! (12 * tri + 1)) \<noteq> nverts p + 3 * tri)" if "6 \<le> n"
    proof -
      have "12 + 20 * (4096 - 1) \<le> nverts s"
        using pow4_ge [OF that] vs by simp
      then have big: "81912 \<le> nverts s" by simp
      let ?t = "ntris p - 1"
      have t: "?t < ntris p" using tp by simp
      have i: "nverts p + 3 * ?t = nverts s - 3" using vm tp by simp
      then have ge: "2 ^ 16 \<le> nverts p + 3 * ?t" using big by simp
      have st: "unat (triangles s ! (12 * ?t + 1)) = (nverts p + 3 * ?t) mod 2 ^ 16"
        unfolding ts nth_concat_groups_1 [OF t] by (rule unat_of_nat16)
      have "(nverts p + 3 * ?t) mod 2 ^ 16 < (2 ^ 16 :: nat)" by simp
      then have "unat (triangles s ! (12 * ?t + 1)) \<noteq> nverts p + 3 * ?t"
        using st ge by linarith
      with t ge st big show ?thesis by (intro conjI exI [of _ ?t]) simp_all
    qed
    from p groups small large show ?thesis by blast
  qed
  from s below step show ?thesis by blast
qed

lemma IcoSphere_level0:
  assumes "n \<le> 0" "IcoSphere e n = Inr p"
  shows "vertices p = base_vertices e" "triangles p = base_triangles"
    "nverts p = 12" "ntris p = 20"
proof -
  have "IcoSphere e n = Inr ((icosahedron e)\<lparr>tangents :=
      tangents_loop e (vertices (icosahedron e)) (nverts (icosahedron e)) 0
        (replicate (4 * nverts (icosahedron e)) 0)\<rparr>)"
    using assms(1) by (simp add: IcoSphere_eq subdivide_while_0)
  then have p: "p = (icosahedron e)\<lparr>tangents :=
      tangents_loop e (vertices (icosahedron e)) (nverts (icosahedron e)) 0
        (replicate (4 * nverts (icosahedron e)) 0)\<rparr>"
    using assms(2) by simp
  show "vertices p = base_vertices e" "triangles p = base_triangles"
    unfolding p by (simp_all add: icosahedron_def)
  show "nverts p = 12" "ntris p = 20"
    unfolding p by (simp_all add: icosahedron_counts)
qed

text \<open>
  Claim C2 as stated gives \<open>12 + 10 * (4 ^ 1 - 1) = 42\<close> vertices at level 1; the
  constructor makes \<open>12 + 3 * 20 = 72\<close>.
\<close>

theorem IcoSphere_vertex_count_counterexample:
  "\<not> isl (IcoSphere sample_env 1) \<and> nverts (projr (IcoSphere sample_env 1)) = 72
   \<and> (72 :: nat) \<noteq> 12 + 10 * (4 ^ nat 1 - 1)"
  using IcoSphere_mesh [of sample_env 1] by auto

text \<open>The icosahedron of the sample environment, and the levels 0 and 1.\<close>

theorem subdivide_preserves_vertices_witness:
  "length (vertices (icosahedron sample_env)) mod 3 = 0
   \<and> (\<exists>this'. subdivide sample_env (icosahedron sample_env) = Inr this'
         \<and> take 36 (vertices this') = vertices (icosahedron sample_env))
   \<and> (0::int) \<le> 0
   \<and> (\<exists>p s. IcoSphere sample_env 0 = Inr p \<and> IcoSphere sample_env (0 + 1) = Inr s
         \<and> take (3 * nverts p) (vertices s) = vertices p)"
  using subdivide_preserves_vertices [of "icosahedron sample_env" sample_env 0]
  by (simp add: icosahedron_counts)

text \<open>
  The levels 1 and 6 in the sample environment: the first triangle \<open>(1, 4, 0)\<close> of the
  icosahedron becomes \<open>(1, 12, 14)\<close>, \<open>(12, 4, 13)\<close>, \<open>(14, 12, 13)\<close>, \<open>(0, 14, 13)\<close>.
\<close>

theorem IcoSphere_triangle_indices_witness:
  "(\<exists>s p. IcoSphere sample_env 1 = Inr s \<and> IcoSphere sample_env 0 = Inr p
        \<and> (1::int) \<le> 5 \<and> (0::int) < 1
        \<and> (\<forall>w \<in> set (triangles s). unat w < nverts s)
        \<and> (0::nat) < ntris p
        \<and> map unat (subarray (triangles s) 0 12) = [1, 12, 14, 12, 4, 13, 14, 12, 13, 0, 14, 13])
   \<and> (\<exists>s p tri. IcoSphere sample_env 6 = Inr s \<and> IcoSphere sample_env 5 = Inr p
        \<and> (6::int) \<le> 6 \<and> 2 ^ 16 < nverts s \<and> tri < ntris p
        \<and> 2 ^ 16 \<le> nverts p + 3 * tri
        \<and> unat (triangles s ! (12 * tri + 1)) \<noteq> nverts p + 3 * tri)"
proof
  from IcoSphere_triangle_indices [of sample_env 1] obtain s p where
    s: "IcoSphere sample_env 1 = Inr s" and b: "\<forall>w \<in> set (triangles s). unat w < nverts s"
    and p: "IcoSphere sample_env 0 = Inr p"
    and g: "\<forall>tri < ntris p.
                map unat (subarray (triangles s) (12 * tri) (12 * tri + 12)) =
                  [unat (triangles p ! (3 * tri)),
                   (nverts p + 3 * tri) mod 2 ^ 16, (nverts p + 3 * tri + 2) mod 2 ^ 16,
                   (nverts p + 3 * tri) mod 2 ^ 16,
                   unat (triangles p ! (3 * tri + 1)), (nverts p + 3 * tri + 1) mod 2 ^ 16,
                   (nverts p + 3 * tri + 2) mod 2 ^ 16,
                   (nverts p + 3 * tri) mod 2 ^ 16, (nverts p + 3 * tri + 1) mod 2 ^ 16,
                   unat (triangles p ! (3 * tri + 2)),
                   (nverts p + 3 * tri + 2) mod 2 ^ 16, (nverts p + 3 * tri + 1) mod 2 ^ 16]"
    by auto
  note l = IcoSphere_level0 [OF _ p]
  have t: "0 < ntris p" using l(4) by simp
  have "map unat (subarray (triangles s) 0 12) = [1, 12, 14, 12, 4, 13, 14, 12, 13, 0, 14, 13]"
    using g [rule_format, OF t] by (simp add: l base_triangles_def)
  with s p b t show "\<exists>s p. IcoSphere sample_env 1 = Inr s \<and> IcoSphere sample_env 0 = Inr p
        \<and> (1::int) \<le> 5 \<and> (0::int) < 1
        \<and> (\<forall>w \<in> set (triangles s). unat w < nverts s)
        \<and> (0::nat) < ntris p
        \<and> map unat (subarray (triangles s) 0 12) = [1, 12, 14, 12, 4, 13, 14, 12, 13, 0, 14, 13]"
    by auto
next
  from IcoSphere_triangle_indices [of sample_env 6]
  show "\<exists>s p tri. IcoSphere sample_env 6 = Inr s \<and> IcoSphere sample_env 5 = Inr p
        \<and> (6::int) \<le> 6 \<and> 2 ^ 16 < nverts s \<and> tri < ntris p
        \<and> 2 ^ 16 \<le> nverts p + 3 * tri
        \<and> unat (triangles s ! (12 * tri + 1)) \<noteq> nverts p + 3 * tri"
    by auto
qed

subsection \<open>The vertices one step inserts\<close>

lemma store3_full:
  assumes "b + 3 \<le> length xs"
  shows "store3 conv xs b (x, y, z) = take b xs @ [conv x, conv y, conv z] @ drop (b + 3) xs"
    (is "?l = ?r")
proof (rule nth_equalityI)
  show "length ?l = length ?r" using assms by simp
next
  fix p assume "p < length ?l"
  then have p: "p < length xs" by simp
  consider "p < b" | "p = b" | "p = b + 1" | "p = b + 2" | "b + 3 \<le> p"
    by atomize_elim presburger
  then show "?l ! p = ?r ! p"
  proof cases
    case 5
    then have "?r ! p = drop (b + 3) xs ! (p - (b + 3))"
      using assms by (simp add: nth_append)
    also have "\<dots> = xs ! p" using 5 p by simp
    finally show ?thesis using 5 by simp
  qed (use assms in \<open>simp_all add: nth_append\<close>)
qed

lemma length_stored_midpoint: "length (stored_midpoint e a b) = 3"
  by (simp add: stored_midpoint_def split: prod.splits)

lemma normalized_sum_full:
  assumes "i + 3 \<le> length dst"
  shows "normalized_sum e dst i a b = take i dst @ stored_midpoint e a b @ drop (i + 3) dst"
proof -
  obtain x y z where s: "vec3_add e a b = (x, y, z)" by (cases "vec3_add e a b")
  obtain x' y' z' where n: "vec3_normalize e [fround e x, fround e y, fround e z] = (x', y', z')"
    by (cases "vec3_normalize e [fround e x, fround e y, fround e z]")
  define dst1 where "dst1 = take i dst @ [fround e x, fround e y, fround e z] @ drop (i + 3) dst"
  have d1: "store3 (fround e) dst i (x, y, z) = dst1"
    unfolding dst1_def by (rule store3_full [OF assms])
  have l1: "i + 3 \<le> length dst1" using assms by (simp add: dst1_def)
  have v: "subarray dst1 i (i + 3) = [fround e x, fround e y, fround e z]"
    using assms by (simp add: subarray_def dst1_def)
  have t: "take i dst1 = take i dst" "drop (i + 3) dst1 = drop (i + 3) dst"
    using assms by (simp_all add: dst1_def)
  have "normalized_sum e dst i a b = store3 (fround e) dst1 i (x', y', z')"
    unfolding normalized_sum_def Let_def s d1 v n by (rule refl)
  also have "\<dots> = take i dst1 @ [fround e x', fround e y', fround e z'] @ drop (i + 3) dst1"
    by (rule store3_full [OF l1])
  finally show ?thesis
    by (simp add: t stored_midpoint_def s n)
qed

lemma body_take_dstverts:
  assumes "loop_inv nv tri s" "i3 s + 9 \<le> length (dstverts s)"
  shows "take (i3 s + 9) (dstverts (subdivide_body e st sv s))
         = take (i3 s) (dstverts s) @ vert_group e st sv tri"
proof -
  define i where "i = i3 s"
  define d where "d = dstverts s"
  have s: "srcind s = 3 * tri" and i4: "i4 s = i + 3" and i5: "i5 s = i + 6"
    using assms(1) by (simp_all add: loop_inv_def i_def)
  define m0 where "m0 = stored_midpoint e (corner_view st sv (3 * tri)) (corner_view st sv (3 * tri + 1))"
  define m1 where "m1 = stored_midpoint e (corner_view st sv (3 * tri + 1)) (corner_view st sv (3 * tri + 2))"
  define m2 where "m2 = stored_midpoint e (corner_view st sv (3 * tri + 2)) (corner_view st sv (3 * tri))"
  have lm: "length m0 = 3" "length m1 = 3" "length m2 = 3"
    by (simp_all add: m0_def m1_def m2_def length_stored_midpoint)
  have len: "i + 9 \<le> length d" using assms(2) by (simp add: i_def d_def)
  define v3 where "v3 = normalized_sum e d i (corner_view st sv (3 * tri)) (corner_view st sv (3 * tri + 1))"
  define v4 where "v4 = normalized_sum e v3 (i + 3) (corner_view st sv (3 * tri + 1)) (corner_view st sv (3 * tri + 2))"
  define v5 where "v5 = normalized_sum e v4 (i + 6) (corner_view st sv (3 * tri + 2)) (corner_view st sv (3 * tri))"
  have e3: "v3 = take i d @ m0 @ drop (i + 3) d"
    unfolding v3_def m0_def using len by (intro normalized_sum_full) simp
  have l3: "length v3 = length d" by (simp add: v3_def length_normalized_sum)
  have e4: "v4 = take (i + 3) v3 @ m1 @ drop (i + 3 + 3) v3"
    unfolding v4_def m1_def using len l3 by (intro normalized_sum_full) simp
  have l4: "length v4 = length d" by (simp add: v4_def l3 length_normalized_sum)
  have e5: "v5 = take (i + 6) v4 @ m2 @ drop (i + 6 + 3) v4"
    unfolding v5_def m2_def using len l4 by (intro normalized_sum_full) simp
  have t3: "take (i + 3) v3 = take i d @ m0"
    unfolding e3 using len lm by simp
  have t4: "take (i + 6) v4 = take i d @ m0 @ m1"
    unfolding e4 t3 using len lm by simp
  have t5: "take (i + 9) v5 = take i d @ m0 @ m1 @ m2"
    unfolding e5 t4 using len lm by simp
  have "dstverts (subdivide_body e st sv s) = v5"
    by (simp add: subdivide_body_def Let_def v5_def v4_def v3_def s i4 i5 corner_view_def
        i_def [symmetric] d_def [symmetric])
  then show ?thesis
    using t5 by (simp add: i_def [symmetric] d_def [symmetric] vert_group_def m0_def m1_def m2_def)
qed

lemma loop_dstverts:
  "loop_inv nv tri s \<Longrightarrow> length (dstverts s) = 3 * nv + 9 * n \<Longrightarrow> tri \<le> n \<Longrightarrow>
   take (3 * nv + 9 * tri) (dstverts s) = pre @ concat (map (vert_group e st sv) [0..<tri]) \<Longrightarrow>
   dstverts (subdivide_loop e st sv n tri s) = pre @ concat (map (vert_group e st sv) [0..<n])"
proof (induction e st sv n tri s rule: subdivide_loop.induct)
  case (1 e st sv n tri s)
  note inv = "1.prems"(1) and len = "1.prems"(2) and le = "1.prems"(3) and pre = "1.prems"(4)
  have i3: "i3 s = 3 * nv + 9 * tri" using inv by (simp add: loop_inv_def)
  show ?case
  proof (cases "tri < n")
    case True
    let ?s = "subdivide_body e st sv s"
    have "i3 s + 9 \<le> length (dstverts s)" using True len i3 by simp
    from body_take_dstverts [OF inv this, of e st sv]
    have b: "take (i3 s + 9) (dstverts ?s) = take (i3 s) (dstverts s) @ vert_group e st sv tri" .
    have e: "3 * nv + 9 * (tri + 1) = i3 s + 9" by (simp add: i3)
    have t: "take (3 * nv + 9 * (tri + 1)) (dstverts ?s)
        = pre @ concat (map (vert_group e st sv) [0..<tri + 1])"
      unfolding e b unfolding i3 pre by simp
    have "dstverts (subdivide_loop e st sv n (tri + 1) ?s) = pre @ concat (map (vert_group e st sv) [0..<n])"
      using "1.IH" [OF True loop_inv_body [OF inv] _ _ t] True len
      by (simp add: length_dstverts_body)
    then show ?thesis using True by (subst subdivide_loop.simps) simp
  next
    case False
    then have "tri = n" using le by simp
    then show ?thesis using len pre by (subst subdivide_loop.simps) simp
  qed
qed

lemma subdivide_vertices:
  assumes "subdivide e this = Inr this'" and m3: "length (vertices this) mod 3 = 0"
  shows "vertices this' = vertices this
           @ concat (map (vert_group e (triangles this) (vertices this)) [0..<ntris this])"
proof -
  define nt where "nt = length (triangles this) div 3"
  define nv where "nv = length (vertices this) div 3"
  have lv: "length (vertices this) = 3 * nv" using m3 unfolding nv_def by presburger
  define dv where "dv = vertices this @ drop (length (vertices this)) (replicate ((nv + nt * 3) * 3) (Fin 0))"
  define s0 where "s0 = \<lparr>srcind = 0, dstind = 0, i3 = nv * 3, i4 = nv * 3 + 3, i5 = nv * 3 + 3 + 3,
      dsttris = replicate (nt * 4 * 3) (0 :: 16 word), dstverts = dv\<rparr>"
  define s where "s = subdivide_loop e (triangles this) (vertices this) nt 0 s0"
  have fits: "length (vertices this) \<le> (nv + nt * 3) * 3" using lv by simp
  then have set_ok: "typed_set (replicate ((nv + nt * 3) * 3) (Fin 0)) (vertices this) = Inr dv"
    by (simp add: typed_set_def dv_def)
  have "subdivide e this = Inr (this\<lparr>triangles := dsttris s, vertices := dstverts s\<rparr>)"
    unfolding subdivide_def Let_def nt_def [symmetric] nv_def [symmetric] set_ok
    by (simp add: s_def s0_def)
  then have r: "this' = this\<lparr>triangles := dsttris s, vertices := dstverts s\<rparr>"
    using assms(1) by simp
  have inv: "loop_inv nv 0 s0" by (simp add: loop_inv_def s0_def)
  have len0: "length (dstverts s0) = 3 * nv + 9 * nt" using lv by (simp add: s0_def dv_def)
  have take0: "take (3 * nv + 9 * 0) (dstverts s0)
      = vertices this @ concat (map (vert_group e (triangles this) (vertices this)) [0..<0])"
    using lv by (simp add: s0_def dv_def)
  have "dstverts s = vertices this @ concat (map (vert_group e (triangles this) (vertices this)) [0..<nt])"
    unfolding s_def by (rule loop_dstverts [OF inv len0 _ take0]) simp
  then show ?thesis by (simp add: r ntris_def nt_def)
qed

lemma length_vert_group: "length (vert_group e st sv j) = 9"
  by (simp add: vert_group_def length_stored_midpoint)

lemma length_concat_vert_groups: "length (concat (map (vert_group e st sv) [0..<n])) = 9 * n"
  by (induction n) (simp_all add: length_vert_group)

lemma upt_split: "j < n \<Longrightarrow> [0..<n] = [0..<j] @ j # [Suc j..<n]"
proof -
  assume a: "j < n"
  have n: "n = j + (n - j)" using a by simp
  have "[0..<j + (n - j)] = [0..<j] @ [j..<j + (n - j)]"
    by (rule upt_add_eq_append) simp
  moreover have "[j..<j + (n - j)] = j # [Suc j..<j + (n - j)]"
    by (rule upt_conv_Cons) (use a in simp)
  ultimately show ?thesis using n by simp
qed

lemma subarray_vert_groups:
  assumes "j < n" "length pre = m"
  shows "subarray (pre @ concat (map (vert_group e st sv) [0..<n])) (m + 9 * j) (m + 9 * j + 9)
     = vert_group e st sv j"
proof -
  have "concat (map (vert_group e st sv) [0..<n])
      = concat (map (vert_group e st sv) [0..<j]) @ vert_group e st sv j
        @ concat (map (vert_group e st sv) [Suc j..<n])"
    by (simp add: upt_split [OF assms(1)])
  then show ?thesis
    using assms(2) by (simp add: subarray_def length_concat_vert_groups length_vert_group)
qed

lemma subarray_nth:
  assumes "subarray xs a (a + m) = ys" "length ys = m" "k < m"
  shows "xs ! (a + k) = ys ! k"
proof -
  have t: "take m (drop a xs) = ys" using assms(1) by (simp add: subarray_def)
  have "m \<le> length (drop a xs)" using assms(2) t by (metis length_take min.absorb_iff2 min.commute)
  then have "a + k < length xs" using assms(3) by simp
  then have "xs ! (a + k) = drop a xs ! k" by simp
  also have "\<dots> = take m (drop a xs) ! k" using assms(3) by simp
  finally show ?thesis using t by simp
qed

text \<open>
  Two consecutive levels in full: the triangles and the vertices of level \<open>n\<close>, from
  those of level \<open>n - 1\<close>.
\<close>

lemma IcoSphere_split:
  assumes "0 < n"
  shows "\<exists>p s. IcoSphere e (n - 1) = Inr p \<and> IcoSphere e n = Inr s
     \<and> triangles s = concat (map (tri_group (triangles p) (nverts p)) [0..<ntris p])
     \<and> vertices s = vertices p
          @ concat (map (vert_group e (triangles p) (vertices p)) [0..<ntris p])"
proof -
  from IcoSphere_step [OF assms, of e] obtain p m s where
    pms: "IcoSphere e (n - 1) = Inr p" "subdivide e p = Inr m" "IcoSphere e n = Inr s"
      "vertices s = vertices m" "triangles s = triangles m"
    by (elim exE conjE)
  have "triangles s = concat (map (tri_group (triangles p) (nverts p)) [0..<ntris p])"
    using subdivide_Inr(1) [OF pms(2)] pms(5) by simp
  moreover have "vertices s = vertices p
          @ concat (map (vert_group e (triangles p) (vertices p)) [0..<ntris p])"
    using subdivide_vertices [OF pms(2) IcoSphere_vertices_mod3 [OF pms(1)]] pms(4) by simp
  ultimately show ?thesis using pms(1,3) by (intro exI [of _ p] exI [of _ s] conjI)
qed

lemma IcoSphere_counts:
  assumes "IcoSphere e n = Inr s"
  shows "ntris s = 20 * 4 ^ nat n" "nverts s = 12 + 20 * (4 ^ nat n - 1)"
    "length (vertices s) = 3 * nverts s"
proof -
  from IcoSphere_mesh [of e n] obtain m where
    m: "IcoSphere e n = Inr (m\<lparr>tangents :=
          tangents_loop e (vertices m) (nverts m) 0 (replicate (4 * nverts m) 0)\<rparr>)"
    and c: "ntris m = 20 * 4 ^ nat n" "nverts m = 12 + 20 * (4 ^ nat n - 1)"
      "length (vertices m) mod 3 = 0"
    by (elim exE conjE)
  have s: "s = m\<lparr>tangents := tangents_loop e (vertices m) (nverts m) 0 (replicate (4 * nverts m) 0)\<rparr>"
    using assms m by simp
  show "ntris s = 20 * 4 ^ nat n" "nverts s = 12 + 20 * (4 ^ nat n - 1)"
    using c(1,2) by (simp_all add: s)
  have "length (vertices s) mod 3 = 0" using c(3) by (simp add: s)
  then show "length (vertices s) = 3 * nverts s" unfolding nverts_def by presburger
qed

lemma while_base_prefix:
  "12 \<le> nverts this \<Longrightarrow> subdivide_while e n this = Inr r \<Longrightarrow>
   take 36 (vertices r) = take 36 (vertices this)"
proof (induction e n this rule: subdivide_while.induct)
  case (1 e n this)
  show ?case
  proof (cases "0 < n")
    case False
    then have "r = this" using "1.prems"(2) by (simp add: subdivide_while_0)
    then show ?thesis by simp
  next
    case True
    show ?thesis
    proof (cases "subdivide e this")
      case (Inl err)
      then have "subdivide_while e n this = Inl err"
        using True by (subst subdivide_while.simps) simp
      then show ?thesis using "1.prems"(2) by simp
    next
      case (Inr this1)
      have w: "subdivide_while e (n - 1) this1 = Inr r"
        using "1.prems"(2) True Inr by (subst (asm) subdivide_while.simps) simp
      have n1: "12 \<le> nverts this1" using subdivide_counts(2) [OF Inr] "1.prems"(1) by simp
      have "take 36 (take (3 * nverts this) (vertices this1))
          = take 36 (take (3 * nverts this) (vertices this))"
        using subdivide_Inr(3) [OF Inr] by simp
      then have "take 36 (vertices this1) = take 36 (vertices this)"
        using "1.prems"(1) by (simp add: min_def)
      then show ?thesis using "1.IH" [OF True Inr n1 w] by simp
    qed
  qed
qed

lemma IcoSphere_base_prefix:
  assumes "IcoSphere e n = Inr s"
  shows "take 36 (vertices s) = base_vertices e"
proof -
  from IcoSphere_mesh [of e n] obtain m where
    w: "subdivide_while e n (icosahedron e) = Inr m"
    and m: "IcoSphere e n = Inr (m\<lparr>tangents :=
          tangents_loop e (vertices m) (nverts m) 0 (replicate (4 * nverts m) 0)\<rparr>)"
    by (elim exE conjE)
  have "take 36 (vertices m) = take 36 (vertices (icosahedron e))"
    by (rule while_base_prefix [OF _ w]) (simp add: icosahedron_counts)
  also have "\<dots> = base_vertices e"
    using icosahedron_counts(1) [of e] by (simp add: icosahedron_def)
  finally show ?thesis using assms m by auto
qed

lemma base_views:
  "subarray (base_vertices e) 0 3 = [fround e (Fin (- ico_X)), fround e (Fin ico_N), fround e (Fin ico_Z)]"
  "subarray (base_vertices e) 3 6 = [fround e (Fin ico_X), fround e (Fin ico_N), fround e (Fin ico_Z)]"
  "subarray (base_vertices e) 12 15 = [fround e (Fin ico_N), fround e (Fin ico_Z), fround e (Fin ico_X)]"
  "subarray (base_vertices e) 15 18 = [fround e (Fin ico_N), fround e (Fin ico_Z), fround e (Fin (- ico_X))]"
  "subarray (base_vertices e) 18 21 = [fround e (Fin ico_N), fround e (Fin (- ico_Z)), fround e (Fin ico_X)]"
  by (simp_all add: base_vertices_def subarray_def)

lemma corner_view_base:
  assumes "IcoSphere e n = Inr p" "unat (triangles p ! k) = c" "c < 12"
  shows "corner_view (triangles p) (vertices p) k = subarray (base_vertices e) (c * 3) (c * 3 + 3)"
proof -
  have "subarray (vertices p) (c * 3) (c * 3 + 3) = subarray (take 36 (vertices p)) (c * 3) (c * 3 + 3)"
    using assms(3) by (simp add: subarray_def drop_take min_def)
  then show ?thesis
    by (simp add: corner_view_def assms(2) IcoSphere_base_prefix [OF assms(1)])
qed

subsection \<open>The subdivision step in full\<close>

text \<open>
  Claim C1. For every subdivision count \<open>n\<close>, \<open>IcoSphere n\<close> returns an icosphere with
  \<open>20 * 4 ^ n\<close> triangles. At level 0 (and below) it is the icosahedron of the two array
  literals, 12 vertices and 20 triangles. At a level \<open>n > 0\<close> its vertices and triangles
  are those \<open>subdivide\<close> makes of the icosphere \<open>p\<close> of level \<open>n - 1\<close>, so the step is
  applied \<open>n\<close> times, and the step splits every triangle into four: the vertices of \<open>p\<close>
  are kept in front; triangle \<open>tri\<close> of \<open>p\<close>, with corners \<open>c0 c1 c2\<close>, gets the three new
  vertices \<open>a = nverts p + 3 * tri\<close>, \<open>a + 1\<close>, \<open>a + 2\<close>, which are the stored, normalized
  sums of the corners \<open>c0 c1\<close>, \<open>c1 c2\<close> and \<open>c2 c0\<close>, and it is replaced by the four
  triangles \<open>(c0, a, a + 2)\<close>, \<open>(a, c1, a + 1)\<close>, \<open>(a + 2, a, a + 1)\<close>,
  \<open>(c2, a + 2, a + 1)\<close>, the new indices as the \<open>Uint16Array\<close> stores them. Hence the
  number of triangles is multiplied by four and the number of vertices grows by three per
  triangle: \<open>vertices n = vertices (n - 1) + 3 * triangles (n - 1)\<close>.
\<close>

theorem IcoSphere_subdivision_counts:
  "\<exists>s. IcoSphere e n = Inr s
     \<and> ntris s = 20 * 4 ^ nat n
     \<and> (n \<le> 0 \<longrightarrow> vertices s = base_vertices e \<and> triangles s = base_triangles
                  \<and> nverts s = 12 \<and> ntris s = 20)
     \<and> (0 < n \<longrightarrow> (\<exists>p m. IcoSphere e (n - 1) = Inr p \<and> subdivide e p = Inr m
                  \<and> vertices s = vertices m \<and> triangles s = triangles m
                  \<and> ntris s = 4 * ntris p \<and> nverts s = nverts p + 3 * ntris p
                  \<and> take (3 * nverts p) (vertices s) = vertices p
                  \<and> (\<forall>tri < ntris p.
                        subarray (triangles s) (12 * tri) (12 * tri + 12) =
                          [triangles p ! (3 * tri),
                           of_nat (nverts p + 3 * tri), of_nat (nverts p + 3 * tri + 2),
                           of_nat (nverts p + 3 * tri),
                           triangles p ! (3 * tri + 1), of_nat (nverts p + 3 * tri + 1),
                           of_nat (nverts p + 3 * tri + 2),
                           of_nat (nverts p + 3 * tri), of_nat (nverts p + 3 * tri + 1),
                           triangles p ! (3 * tri + 2),
                           of_nat (nverts p + 3 * tri + 2), of_nat (nverts p + 3 * tri + 1)]
                      \<and> subarray (vertices s) (3 * (nverts p + 3 * tri)) (3 * (nverts p + 3 * tri) + 9) =
                          stored_midpoint e (corner_view (triangles p) (vertices p) (3 * tri))
                                            (corner_view (triangles p) (vertices p) (3 * tri + 1))
                          @ stored_midpoint e (corner_view (triangles p) (vertices p) (3 * tri + 1))
                                              (corner_view (triangles p) (vertices p) (3 * tri + 2))
                          @ stored_midpoint e (corner_view (triangles p) (vertices p) (3 * tri + 2))
                                              (corner_view (triangles p) (vertices p) (3 * tri)))))"
proof -
  obtain mn where mn: "subdivide_while e n (icosahedron e) = Inr mn"
    and s: "IcoSphere e n = Inr (mn\<lparr>tangents :=
          tangents_loop e (vertices mn) (nverts mn) 0 (replicate (4 * nverts mn) 0)\<rparr>)"
    and t: "ntris mn = 20 * 4 ^ nat n"
    using IcoSphere_mesh [of e n] by (elim exE conjE)
  let ?s = "mn\<lparr>tangents := tangents_loop e (vertices mn) (nverts mn) 0 (replicate (4 * nverts mn) 0)\<rparr>"
  have base: "n \<le> 0 \<longrightarrow> vertices ?s = base_vertices e \<and> triangles ?s = base_triangles
      \<and> nverts ?s = 12 \<and> ntris ?s = 20"
  proof
    assume "n \<le> 0"
    then have "mn = icosahedron e" using mn by (simp add: subdivide_while_0)
    then show "vertices ?s = base_vertices e \<and> triangles ?s = base_triangles
      \<and> nverts ?s = 12 \<and> ntris ?s = 20"
      by (simp add: icosahedron_counts) (simp add: icosahedron_def)
  qed
  have step: "\<exists>p m. IcoSphere e (n - 1) = Inr p \<and> subdivide e p = Inr m
                  \<and> vertices ?s = vertices m \<and> triangles ?s = triangles m
                  \<and> ntris ?s = 4 * ntris p \<and> nverts ?s = nverts p + 3 * ntris p
                  \<and> take (3 * nverts p) (vertices ?s) = vertices p
                  \<and> (\<forall>tri < ntris p.
                        subarray (triangles ?s) (12 * tri) (12 * tri + 12) =
                          [triangles p ! (3 * tri),
                           of_nat (nverts p + 3 * tri), of_nat (nverts p + 3 * tri + 2),
                           of_nat (nverts p + 3 * tri),
                           triangles p ! (3 * tri + 1), of_nat (nverts p + 3 * tri + 1),
                           of_nat (nverts p + 3 * tri + 2),
                           of_nat (nverts p + 3 * tri), of_nat (nverts p + 3 * tri + 1),
                           triangles p ! (3 * tri + 2),
                           of_nat (nverts p + 3 * tri + 2), of_nat (nverts p + 3 * tri + 1)]
                      \<and> subarray (vertices ?s) (3 * (nverts p + 3 * tri)) (3 * (nverts p + 3 * tri) + 9) =
                          stored_midpoint e (corner_view (triangles p) (vertices p) (3 * tri))
                                            (corner_view (triangles p) (vertices p) (3 * tri + 1))
                          @ stored_midpoint e (corner_view (triangles p) (vertices p) (3 * tri + 1))
                                              (corner_view (triangles p) (vertices p) (3 * tri + 2))
                          @ stored_midpoint e (corner_view (triangles p) (vertices p) (3 * tri + 2))
                                              (corner_view (triangles p) (vertices p) (3 * tri)))"
    if pos: "0 < n"
  proof -
    from IcoSphere_step [OF pos, of e] obtain p m where
      pm: "IcoSphere e (n - 1) = Inr p" "subdivide e p = Inr m"
        "vertices ?s = vertices m" "triangles ?s = triangles m"
      using s by auto
    have lp: "length (vertices p) = 3 * nverts p"
      by (rule IcoSphere_counts(3) [OF pm(1)])
    have ts: "triangles ?s = concat (map (tri_group (triangles p) (nverts p)) [0..<ntris p])"
      using subdivide_Inr(1) [OF pm(2)] pm(4) by simp
    have vs: "vertices ?s = vertices p
          @ concat (map (vert_group e (triangles p) (vertices p)) [0..<ntris p])"
      using subdivide_vertices [OF pm(2) IcoSphere_vertices_mod3 [OF pm(1)]] pm(3) by simp
    have "ntris ?s = ntris m" "nverts ?s = nverts m"
      using pm(3,4) by (simp_all add: nverts_def ntris_def)
    then have c: "ntris ?s = 4 * ntris p" "nverts ?s = nverts p + 3 * ntris p"
      using subdivide_counts(1,2) [OF pm(2)] by simp_all
    have keep: "take (3 * nverts p) (vertices ?s) = vertices p"
      unfolding vs using lp by simp
    have groups: "subarray (triangles ?s) (12 * tri) (12 * tri + 12) =
                          [triangles p ! (3 * tri),
                           of_nat (nverts p + 3 * tri), of_nat (nverts p + 3 * tri + 2),
                           of_nat (nverts p + 3 * tri),
                           triangles p ! (3 * tri + 1), of_nat (nverts p + 3 * tri + 1),
                           of_nat (nverts p + 3 * tri + 2),
                           of_nat (nverts p + 3 * tri), of_nat (nverts p + 3 * tri + 1),
                           triangles p ! (3 * tri + 2),
                           of_nat (nverts p + 3 * tri + 2), of_nat (nverts p + 3 * tri + 1)]
                      \<and> subarray (vertices ?s) (3 * (nverts p + 3 * tri)) (3 * (nverts p + 3 * tri) + 9) =
                          stored_midpoint e (corner_view (triangles p) (vertices p) (3 * tri))
                                            (corner_view (triangles p) (vertices p) (3 * tri + 1))
                          @ stored_midpoint e (corner_view (triangles p) (vertices p) (3 * tri + 1))
                                              (corner_view (triangles p) (vertices p) (3 * tri + 2))
                          @ stored_midpoint e (corner_view (triangles p) (vertices p) (3 * tri + 2))
                                              (corner_view (triangles p) (vertices p) (3 * tri))"
      if tri: "tri < ntris p" for tri
    proof
      show "subarray (triangles ?s) (12 * tri) (12 * tri + 12) =
                          [triangles p ! (3 * tri),
                           of_nat (nverts p + 3 * tri), of_nat (nverts p + 3 * tri + 2),
                           of_nat (nverts p + 3 * tri),
                           triangles p ! (3 * tri + 1), of_nat (nverts p + 3 * tri + 1),
                           of_nat (nverts p + 3 * tri + 2),
                           of_nat (nverts p + 3 * tri), of_nat (nverts p + 3 * tri + 1),
                           triangles p ! (3 * tri + 2),
                           of_nat (nverts p + 3 * tri + 2), of_nat (nverts p + 3 * tri + 1)]"
        unfolding ts subarray_groups [OF tri] tri_group_def by (rule refl)
      have e: "3 * (nverts p + 3 * tri) = 3 * nverts p + 9 * tri" by simp
      show "subarray (vertices ?s) (3 * (nverts p + 3 * tri)) (3 * (nverts p + 3 * tri) + 9) =
                          stored_midpoint e (corner_view (triangles p) (vertices p) (3 * tri))
                                            (corner_view (triangles p) (vertices p) (3 * tri + 1))
                          @ stored_midpoint e (corner_view (triangles p) (vertices p) (3 * tri + 1))
                                              (corner_view (triangles p) (vertices p) (3 * tri + 2))
                          @ stored_midpoint e (corner_view (triangles p) (vertices p) (3 * tri + 2))
                                              (corner_view (triangles p) (vertices p) (3 * tri))"
        unfolding vs e subarray_vert_groups [OF tri lp] vert_group_def by (rule refl)
    qed
    show ?thesis
      using pm c keep groups by (intro exI [of _ p] exI [of _ m] conjI allI impI) blast+
  qed
  have "ntris ?s = 20 * 4 ^ nat n" using t by simp
  with s base step show ?thesis by blast
qed

text \<open>
  The levels 0 and 2 in the sample environment, and at level 1 the split of the first
  triangle \<open>(1, 4, 0)\<close> of the icosahedron.
\<close>

theorem IcoSphere_subdivision_counts_witness:
  "(\<exists>s. IcoSphere sample_env 0 = Inr s \<and> (0::int) \<le> 0
        \<and> vertices s = base_vertices sample_env \<and> triangles s = base_triangles
        \<and> nverts s = 12 \<and> ntris s = 20)
   \<and> (\<exists>s p m. IcoSphere sample_env 2 = Inr s \<and> (0::int) < 2
        \<and> IcoSphere sample_env (2 - 1) = Inr p \<and> subdivide sample_env p = Inr m
        \<and> vertices s = vertices m \<and> triangles s = triangles m
        \<and> ntris s = 320 \<and> ntris s = 4 * ntris p \<and> nverts s = nverts p + 3 * ntris p)
   \<and> (\<exists>s p. IcoSphere sample_env 1 = Inr s \<and> (0::int) < 1
        \<and> IcoSphere sample_env (1 - 1) = Inr p \<and> (0::nat) < ntris p
        \<and> take 36 (vertices s) = base_vertices sample_env
        \<and> subarray (triangles s) 0 12 = [1, 12, 14, 12, 4, 13, 14, 12, 13, 0, 14, 13]
        \<and> subarray (vertices s) 36 45 =
            stored_midpoint sample_env (subarray (base_vertices sample_env) 3 6)
                                       (subarray (base_vertices sample_env) 12 15)
            @ stored_midpoint sample_env (subarray (base_vertices sample_env) 12 15)
                                         (subarray (base_vertices sample_env) 0 3)
            @ stored_midpoint sample_env (subarray (base_vertices sample_env) 0 3)
                                         (subarray (base_vertices sample_env) 3 6))"
proof (intro conjI)
  show "\<exists>s. IcoSphere sample_env 0 = Inr s \<and> (0::int) \<le> 0
        \<and> vertices s = base_vertices sample_env \<and> triangles s = base_triangles
        \<and> nverts s = 12 \<and> ntris s = 20"
    using IcoSphere_subdivision_counts [of sample_env 0] by auto
  show "\<exists>s p m. IcoSphere sample_env 2 = Inr s \<and> (0::int) < 2
        \<and> IcoSphere sample_env (2 - 1) = Inr p \<and> subdivide sample_env p = Inr m
        \<and> vertices s = vertices m \<and> triangles s = triangles m
        \<and> ntris s = 320 \<and> ntris s = 4 * ntris p \<and> nverts s = nverts p + 3 * ntris p"
    using IcoSphere_subdivision_counts [of sample_env 2] by auto
  from IcoSphere_subdivision_counts [of sample_env 1] obtain s p where
    s: "IcoSphere sample_env 1 = Inr s" and p: "IcoSphere sample_env 0 = Inr p"
    and keep: "take (3 * nverts p) (vertices s) = vertices p"
    and g: "\<forall>tri < ntris p.
                        subarray (triangles s) (12 * tri) (12 * tri + 12) =
                          [triangles p ! (3 * tri),
                           of_nat (nverts p + 3 * tri), of_nat (nverts p + 3 * tri + 2),
                           of_nat (nverts p + 3 * tri),
                           triangles p ! (3 * tri + 1), of_nat (nverts p + 3 * tri + 1),
                           of_nat (nverts p + 3 * tri + 2),
                           of_nat (nverts p + 3 * tri), of_nat (nverts p + 3 * tri + 1),
                           triangles p ! (3 * tri + 2),
                           of_nat (nverts p + 3 * tri + 2), of_nat (nverts p + 3 * tri + 1)]
                      \<and> subarray (vertices s) (3 * (nverts p + 3 * tri)) (3 * (nverts p + 3 * tri) + 9) =
                          stored_midpoint sample_env (corner_view (triangles p) (vertices p) (3 * tri))
                                            (corner_view (triangles p) (vertices p) (3 * tri + 1))
                          @ stored_midpoint sample_env (corner_view (triangles p) (vertices p) (3 * tri + 1))
                                              (corner_view (triangles p) (vertices p) (3 * tri + 2))
                          @ stored_midpoint sample_env (corner_view (triangles p) (vertices p) (3 * tri + 2))
                                              (corner_view (triangles p) (vertices p) (3 * tri))"
    by auto
  note l = IcoSphere_level0 [OF _ p]
  have t: "0 < ntris p" using l(4) by simp
  have c: "corner_view (triangles p) (vertices p) 0 = subarray (base_vertices sample_env) 3 6"
    "corner_view (triangles p) (vertices p) (Suc 0) = subarray (base_vertices sample_env) 12 15"
    "corner_view (triangles p) (vertices p) (Suc (Suc 0)) = subarray (base_vertices sample_env) 0 3"
    by (simp_all add: corner_view_def l base_triangles_def)
  have k: "take 36 (vertices s) = base_vertices sample_env"
    using keep by (simp add: l)
  note g0 = g [rule_format, OF t]
  have tr: "subarray (triangles s) 0 12 = [1, 12, 14, 12, 4, 13, 14, 12, 13, 0, 14, 13]"
    using g0 [THEN conjunct1] by (simp add: l base_triangles_def)
  have ve: "subarray (vertices s) 36 45 =
            stored_midpoint sample_env (subarray (base_vertices sample_env) 3 6)
                                       (subarray (base_vertices sample_env) 12 15)
            @ stored_midpoint sample_env (subarray (base_vertices sample_env) 12 15)
                                         (subarray (base_vertices sample_env) 0 3)
            @ stored_midpoint sample_env (subarray (base_vertices sample_env) 0 3)
                                         (subarray (base_vertices sample_env) 3 6)"
    using g0 [THEN conjunct2] by (simp add: l(3) c)
  show "\<exists>s p. IcoSphere sample_env 1 = Inr s \<and> (0::int) < 1
        \<and> IcoSphere sample_env (1 - 1) = Inr p \<and> (0::nat) < ntris p
        \<and> take 36 (vertices s) = base_vertices sample_env
        \<and> subarray (triangles s) 0 12 = [1, 12, 14, 12, 4, 13, 14, 12, 13, 0, 14, 13]
        \<and> subarray (vertices s) 36 45 =
            stored_midpoint sample_env (subarray (base_vertices sample_env) 3 6)
                                       (subarray (base_vertices sample_env) 12 15)
            @ stored_midpoint sample_env (subarray (base_vertices sample_env) 12 15)
                                         (subarray (base_vertices sample_env) 0 3)
            @ stored_midpoint sample_env (subarray (base_vertices sample_env) 0 3)
                                         (subarray (base_vertices sample_env) 3 6)"
    using s p t k tr ve by (intro exI [of _ s] exI [of _ p] conjI) simp_all
qed

subsection \<open>An inserted vertex that is not on the sphere\<close>

text \<open>
  Claim C6, at level 7. Level 5 has 20472 vertices, and its triangle 15023 gets the new
  indices 65541, 65542 and 65543, which the \<open>Uint16Array\<close> stores as 5, 6 and 7. So
  triangle 60094 of level 6 (entries 180282 to 180284) is \<open>(7, 5, 6)\<close>, and the vertices 5
  and 6 of the icosahedron, \<open>(N, Z, -X)\<close> and \<open>(N, -Z, X)\<close>, are opposite. Level 7 stores
  the normalized sum of this pair as vertex 262195 (coordinates 786585 to 786587): in
  every environment it is the stored midpoint of the two base vertices, and in the sample
  environment, where \<open>vec3.normalize\<close> leaves a vector of length 0 as it is, that is
  \<open>(0, 0, 0)\<close>: a vertex of length 0, not 1.
\<close>

theorem IcoSphere_level7_antipodal_midpoint:
  "(\<exists>s6 s7. IcoSphere e 6 = Inr s6 \<and> IcoSphere e 7 = Inr s7
       \<and> subarray (triangles s6) 180282 180285 = [7, 5, 6]
       \<and> 786588 \<le> length (vertices s7)
       \<and> subarray (vertices s7) 786585 786588 =
           stored_midpoint e (subarray (base_vertices e) 15 18) (subarray (base_vertices e) 18 21))
   \<and> subarray (base_vertices sample_env) 15 18 = [Fin 0, Fin ico_Z, Fin (- ico_X)]
   \<and> subarray (base_vertices sample_env) 18 21 = [Fin 0, Fin (- ico_Z), Fin ico_X]
   \<and> stored_midpoint sample_env [Fin 0, Fin ico_Z, Fin (- ico_X)] [Fin 0, Fin (- ico_Z), Fin ico_X]
       = [Fin 0, Fin 0, Fin 0]"
proof (intro conjI)
  from IcoSphere_split [of 6 e] obtain p5 s6 where
    p5: "IcoSphere e 5 = Inr p5" and s6: "IcoSphere e 6 = Inr s6"
    and t6: "triangles s6 = concat (map (tri_group (triangles p5) (nverts p5)) [0..<ntris p5])"
    by auto
  from IcoSphere_split [of 7 e] s6 obtain s7 where
    s7: "IcoSphere e 7 = Inr s7"
    and v7: "vertices s7 = vertices s6
          @ concat (map (vert_group e (triangles s6) (vertices s6)) [0..<ntris s6])"
    by auto
  have c5: "ntris p5 = 20480" "nverts p5 = 20472"
    using IcoSphere_counts(1,2) [OF p5] by simp_all
  have c6: "ntris s6 = 81920" "nverts s6 = 81912" "length (vertices s6) = 245736"
    using IcoSphere_counts [OF s6] by simp_all
  have g: "subarray (triangles s6) (12 * 15023) (12 * 15023 + 12) = tri_group (triangles p5) 20472 15023"
    unfolding t6 c5 by (rule subarray_groups) simp
  have lg: "length (tri_group (triangles p5) 20472 15023) = 12" by (rule length_tri_group)
  have e6: "triangles s6 ! 180282 = 7" "triangles s6 ! 180283 = 5" "triangles s6 ! 180284 = 6"
    using subarray_nth [OF g lg, of 6] subarray_nth [OF g lg, of 7] subarray_nth [OF g lg, of 8]
    by (simp_all add: tri_group_def)
  have l6: "length (triangles s6) = 245760"
    unfolding t6 c5 by (simp add: length_concat_groups)
  have tri: "subarray (triangles s6) 180282 180285 = [7, 5, 6]"
  proof (rule nth_equalityI)
    show "length (subarray (triangles s6) 180282 180285) = length [7 :: 16 word, 5, 6]"
      by (simp add: subarray_def l6)
  next
    fix i assume "i < length (subarray (triangles s6) 180282 180285)"
    then have "i < 3" by (simp add: subarray_def l6)
    then consider "i = 0" | "i = 1" | "i = 2" by atomize_elim presburger
    then show "subarray (triangles s6) 180282 180285 ! i = [7, 5, 6] ! i"
      by cases (simp_all add: subarray_def l6 e6)
  qed
  have vg: "subarray (vertices s7) (245736 + 9 * 60094) (245736 + 9 * 60094 + 9)
      = vert_group e (triangles s6) (vertices s6) 60094"
    unfolding v7 c6(1) by (rule subarray_vert_groups [OF _ c6(3)]) simp
  have len7: "length (vertices s7) = 245736 + 9 * 81920"
    unfolding v7 by (simp add: c6 length_concat_vert_groups)
  have cv: "corner_view (triangles s6) (vertices s6) 180283 = subarray (base_vertices e) 15 18"
    "corner_view (triangles s6) (vertices s6) 180284 = subarray (base_vertices e) 18 21"
    using corner_view_base [OF s6, of 180283 5] corner_view_base [OF s6, of 180284 6]
    by (simp_all add: e6)
  have mid: "take 3 (drop 3 (vert_group e (triangles s6) (vertices s6) 60094))
      = stored_midpoint e (subarray (base_vertices e) 15 18) (subarray (base_vertices e) 18 21)"
    using cv by (simp add: vert_group_def length_stored_midpoint)
  have "subarray (vertices s7) 786585 786588
      = take 3 (drop 3 (subarray (vertices s7) (245736 + 9 * 60094) (245736 + 9 * 60094 + 9)))"
    by (simp add: subarray_def take_drop)
  then have v: "subarray (vertices s7) 786585 786588
      = stored_midpoint e (subarray (base_vertices e) 15 18) (subarray (base_vertices e) 18 21)"
    unfolding vg mid .
  show "\<exists>s6 s7. IcoSphere e 6 = Inr s6 \<and> IcoSphere e 7 = Inr s7
       \<and> subarray (triangles s6) 180282 180285 = [7, 5, 6]
       \<and> 786588 \<le> length (vertices s7)
       \<and> subarray (vertices s7) 786585 786588 =
           stored_midpoint e (subarray (base_vertices e) 15 18) (subarray (base_vertices e) 18 21)"
    using s6 s7 tri v len7 by (intro exI [of _ s6] exI [of _ s7] conjI) simp_all
  show "subarray (base_vertices sample_env) 15 18 = [Fin 0, Fin ico_Z, Fin (- ico_X)]"
    "subarray (base_vertices sample_env) 18 21 = [Fin 0, Fin (- ico_Z), Fin ico_X]"
    by (simp_all add: base_views sample_env_def ico_N_def)
  show "stored_midpoint sample_env [Fin 0, Fin ico_Z, Fin (- ico_X)] [Fin 0, Fin (- ico_Z), Fin ico_X]
       = [Fin 0, Fin 0, Fin 0]"
    by (simp add: stored_midpoint_def sample_env_def exact_add_def exact_normalize_def)
qed

section \<open>Properties of the buffer wrappers\<close>

lemma length_subarray: "length (subarray xs b e) \<le> e - b"
  by (simp add: subarray_def)

lemma length_bytes_of: "length (bytes_of w ta) \<le> byteLength ta"
  unfolding bytes_of_def using length_subarray [of "mem w (buffer ta)" "byteOffset ta" "byteOffset ta + byteLength ta"]
  by simp

lemma byteLength_view: "byteLength (Uint8Array_view b off n) = n"
  by (simp add: byteLength_def Uint8Array_view_def)

lemma typed_set_fits: "length src \<le> length dst \<Longrightarrow> typed_set dst src = Inr (src @ drop (length src) dst)"
  by (simp add: typed_set_def)

text \<open>The typed array whose bytes are copied into the descriptor, and the world then.\<close>

lemma copy_step_world:
  "(if HEAPU32_buffer w = buffer ta then new_Uint8Array w ta else (w, ta)) = (w3, ta') \<Longrightarrow>
   console w3 = console w \<and> textures w3 = textures w \<and> HEAPU32_buffer w3 = HEAPU32_buffer w"
  by (auto simp: new_Uint8Array_def Let_def split: if_splits)

lemma console_assert_fields:
  "textures (console_assert w c) = textures w"
  "HEAPU32_buffer (console_assert w c) = HEAPU32_buffer w"
  "mem (console_assert w c) = mem w"
  "fresh (console_assert w c) = fresh w"
  "console (console_assert w c) = console w @ (if c then [] else [AssertionFailed])"
  by (simp_all add: console_assert_def)

lemma Buffer_Inr:
  "\<exists>w' bd. Buffer w ta = Inr (w', bd)
     \<and> console w' = console w @ (if is_ArrayBuffer (buffer ta) then [] else [AssertionFailed])
                               @ (if 0 < byteLength ta then [] else [AssertionFailed])
     \<and> textures w' = textures w \<and> HEAPU32_buffer w' = HEAPU32_buffer w"
proof -
  define w2 where "w2 = console_assert (console_assert w (is_ArrayBuffer (buffer ta))) (0 < byteLength ta)"
  obtain w3 ta' where c: "(if HEAPU32_buffer w2 = buffer ta then new_Uint8Array w2 ta else (w2, ta)) = (w3, ta')"
    by (cases "if HEAPU32_buffer w2 = buffer ta then new_Uint8Array w2 ta else (w2, ta)") blast
  define v where "v = Uint8Array_view (buffer ta') (byteOffset ta') (byteLength ta')"
  have "length (bytes_of w3 v) \<le> byteLength ta'"
    using length_bytes_of [of w3 v] by (simp add: v_def byteLength_view)
  then have "typed_set (bytes (driver_BufferDescriptor ta')) (bytes_of w3 v)
      = Inr (bytes_of w3 v @ drop (length (bytes_of w3 v)) (bytes (driver_BufferDescriptor ta')))"
    by (intro typed_set_fits) (simp add: driver_BufferDescriptor_def)
  then have "Buffer w ta = Inr (w3, (driver_BufferDescriptor ta')
      \<lparr>bytes := bytes_of w3 v @ drop (length (bytes_of w3 v)) (bytes (driver_BufferDescriptor ta'))\<rparr>)"
    unfolding Buffer_def Let_def w2_def [symmetric] c by (simp add: v_def)
  moreover have "console w3 = console w2" "textures w3 = textures w2" "HEAPU32_buffer w3 = HEAPU32_buffer w2"
    using copy_step_world [OF c] by simp_all
  ultimately show ?thesis
    by (simp add: w2_def console_assert_fields)
qed

lemma PixelBuffer_Inr:
  "\<exists>w' bd. PixelBuffer w ta fmt dtype = Inr (w', bd)
     \<and> console w' = console w @ (if is_ArrayBuffer (buffer ta) then [] else [AssertionFailed])
                               @ (if 0 < byteLength ta then [] else [AssertionFailed])
     \<and> textures w' = textures w \<and> HEAPU32_buffer w' = HEAPU32_buffer w
     \<and> pixel_format bd = fmt \<and> pixel_type bd = dtype"
proof -
  define w2 where "w2 = console_assert (console_assert w (is_ArrayBuffer (buffer ta))) (0 < byteLength ta)"
  obtain w3 ta' where c: "(if HEAPU32_buffer w2 = buffer ta then new_Uint8Array w2 ta else (w2, ta)) = (w3, ta')"
    by (cases "if HEAPU32_buffer w2 = buffer ta then new_Uint8Array w2 ta else (w2, ta)") blast
  define v where "v = Uint8Array_view (buffer ta') (byteOffset ta') (byteLength ta')"
  have "length (bytes_of w3 v) \<le> byteLength ta'"
    using length_bytes_of [of w3 v] by (simp add: v_def byteLength_view)
  then have "typed_set (bytes (driver_PixelBufferDescriptor ta' fmt dtype)) (bytes_of w3 v)
      = Inr (bytes_of w3 v @ drop (length (bytes_of w3 v)) (bytes (driver_PixelBufferDescriptor ta' fmt dtype)))"
    by (intro typed_set_fits) (simp add: driver_PixelBufferDescriptor_def)
  then have "PixelBuffer w ta fmt dtype = Inr (w3, (driver_PixelBufferDescriptor ta' fmt dtype)
      \<lparr>bytes := bytes_of w3 v @ drop (length (bytes_of w3 v)) (bytes (driver_PixelBufferDescriptor ta' fmt dtype))\<rparr>)"
    unfolding PixelBuffer_def Let_def w2_def [symmetric] c by (simp add: v_def)
  moreover have "console w3 = console w2" "textures w3 = textures w2" "HEAPU32_buffer w3 = HEAPU32_buffer w2"
    using copy_step_world [OF c] by simp_all
  ultimately show ?thesis
    by (simp add: w2_def console_assert_fields driver_PixelBufferDescriptor_def)
qed

text \<open>
  Claim C7. \<open>Buffer\<close> and \<open>PixelBuffer\<close> report a failed assertion on a malformed
  input, and only then: each call returns, and what it adds to the console is one
  failed assertion if the array is not backed by an \<^verbatim>\<open>ArrayBuffer\<close> and one if its
  byte length is 0. So an \<^verbatim>\<open>ArrayBuffer\<close>-backed array that is not empty leaves the
  console as it was, and any other array leaves a failed assertion last on it.
  (\<^verbatim>\<open>console.assert\<close> reports and goes on: the descriptor is built all the same.)
\<close>

theorem Buffer_assertions:
  "(\<exists>w' bd. Buffer w ta = Inr (w', bd)
      \<and> console w' = console w @ (if is_ArrayBuffer (buffer ta) then [] else [AssertionFailed])
                                @ (if 0 < byteLength ta then [] else [AssertionFailed])
      \<and> (is_ArrayBuffer (buffer ta) \<and> 0 < byteLength ta \<longrightarrow> console w' = console w)
      \<and> (\<not> is_ArrayBuffer (buffer ta) \<or> byteLength ta = 0 \<longrightarrow>
            console w' \<noteq> console w \<and> last (console w') = AssertionFailed))
   \<and> (\<exists>w' bd. PixelBuffer w ta fmt dtype = Inr (w', bd)
      \<and> console w' = console w @ (if is_ArrayBuffer (buffer ta) then [] else [AssertionFailed])
                                @ (if 0 < byteLength ta then [] else [AssertionFailed])
      \<and> (is_ArrayBuffer (buffer ta) \<and> 0 < byteLength ta \<longrightarrow> console w' = console w)
      \<and> (\<not> is_ArrayBuffer (buffer ta) \<or> byteLength ta = 0 \<longrightarrow>
            console w' \<noteq> console w \<and> last (console w') = AssertionFailed))"
proof
  from Buffer_Inr [of w ta] obtain w' bd where
    r: "Buffer w ta = Inr (w', bd)"
    and c: "console w' = console w @ (if is_ArrayBuffer (buffer ta) then [] else [AssertionFailed])
                               @ (if 0 < byteLength ta then [] else [AssertionFailed])"
    by blast
  have i1: "is_ArrayBuffer (buffer ta) \<and> 0 < byteLength ta \<longrightarrow> console w' = console w"
    using c by simp
  have i2: "\<not> is_ArrayBuffer (buffer ta) \<or> byteLength ta = 0 \<longrightarrow>
            console w' \<noteq> console w \<and> last (console w') = AssertionFailed"
    using c by auto
  show "\<exists>w' bd. Buffer w ta = Inr (w', bd)
      \<and> console w' = console w @ (if is_ArrayBuffer (buffer ta) then [] else [AssertionFailed])
                                @ (if 0 < byteLength ta then [] else [AssertionFailed])
      \<and> (is_ArrayBuffer (buffer ta) \<and> 0 < byteLength ta \<longrightarrow> console w' = console w)
      \<and> (\<not> is_ArrayBuffer (buffer ta) \<or> byteLength ta = 0 \<longrightarrow>
            console w' \<noteq> console w \<and> last (console w') = AssertionFailed)"
    using r c i1 i2 by (intro exI [of _ w'] exI [of _ bd] conjI) assumption+
next
  from PixelBuffer_Inr [of w ta fmt dtype] obtain w' bd where
    r: "PixelBuffer w ta fmt dtype = Inr (w', bd)"
    and c: "console w' = console w @ (if is_ArrayBuffer (buffer ta) then [] else [AssertionFailed])
                               @ (if 0 < byteLength ta then [] else [AssertionFailed])"
    by blast
  have i1: "is_ArrayBuffer (buffer ta) \<and> 0 < byteLength ta \<longrightarrow> console w' = console w"
    using c by simp
  have i2: "\<not> is_ArrayBuffer (buffer ta) \<or> byteLength ta = 0 \<longrightarrow>
            console w' \<noteq> console w \<and> last (console w') = AssertionFailed"
    using c by auto
  show "\<exists>w' bd. PixelBuffer w ta fmt dtype = Inr (w', bd)
      \<and> console w' = console w @ (if is_ArrayBuffer (buffer ta) then [] else [AssertionFailed])
                                @ (if 0 < byteLength ta then [] else [AssertionFailed])
      \<and> (is_ArrayBuffer (buffer ta) \<and> 0 < byteLength ta \<longrightarrow> console w' = console w)
      \<and> (\<not> is_ArrayBuffer (buffer ta) \<or> byteLength ta = 0 \<longrightarrow>
            console w' \<noteq> console w \<and> last (console w') = AssertionFailed)"
    using r c i1 i2 by (intro exI [of _ w'] exI [of _ bd] conjI) assumption+
qed

text \<open>
  Claim C5, at a \<^verbatim>\<open>Uint16Array\<close> on the heap. The claim is that the descriptor holds
  the bytes of the input array as they are at the call. The array \<open>heap_u16\<close> shares
  the buffer of the heap and its bytes are 2 and 1; the descriptor \<open>Buffer\<close> returns
  holds the one byte 2, and so does the one of \<open>PixelBuffer\<close>:
  \<^verbatim>\<open>new Uint8Array(typedarray)\<close> converts the elements, it does not copy the bytes.
  The lemmas \<open>Buffer_bytes_not_heap\<close> and \<open>Buffer_bytes_heap_Uint8\<close> below show where
  the bytes are kept: for an array outside the heap, and for a \<^verbatim>\<open>Uint8Array\<close> on it.
\<close>

theorem Buffer_heap_Uint16_bytes:
  "HEAPU32_buffer heap_world = buffer heap_u16
   \<and> bytes_of heap_world heap_u16 = [2, 1]
   \<and> map_sum id (\<lambda>(w, bd). bytes bd) (Buffer heap_world heap_u16) = Inr [2]
   \<and> map_sum id (\<lambda>(w, bd). bytes bd) (PixelBuffer heap_world heap_u16 RGBA UBYTE) = Inr [2]"
  by (simp add: Buffer_def PixelBuffer_def heap_world_def heap_u16_def Let_def console_assert_def
      new_Uint8Array_def byteLength_def bytes_of_def subarray_def element_def Uint8Array_view_def
      driver_BufferDescriptor_def driver_PixelBufferDescriptor_def typed_set_def)

lemma length_bytes_of_within:
  "byteOffset ta + byteLength ta \<le> length (mem w (buffer ta)) \<Longrightarrow>
   length (bytes_of w ta) = byteLength ta"
  by (simp add: bytes_of_def subarray_def)

text \<open>Outside the heap nothing is converted: the descriptor holds the bytes of the array.\<close>

lemma Buffer_bytes_not_heap:
  assumes "HEAPU32_buffer w \<noteq> buffer ta"
    and "byteOffset ta + byteLength ta \<le> length (mem w (buffer ta))"
  shows "\<exists>w'. Buffer w ta = Inr (w', \<lparr>bytes = bytes_of w ta\<rparr>)"
proof -
  define w2 where "w2 = console_assert (console_assert w (is_ArrayBuffer (buffer ta))) (0 < byteLength ta)"
  have h: "HEAPU32_buffer w2 \<noteq> buffer ta" "mem w2 = mem w"
    using assms(1) by (simp_all add: w2_def console_assert_fields)
  have b: "bytes_of w2 (Uint8Array_view (buffer ta) (byteOffset ta) (byteLength ta)) = bytes_of w ta"
    by (simp add: bytes_of_def h Uint8Array_view_def byteLength_def)
  have l: "length (bytes_of w ta) = byteLength ta"
    by (rule length_bytes_of_within [OF assms(2)])
  have "Buffer w ta = Inr (w2, \<lparr>bytes = bytes_of w ta\<rparr>)"
    unfolding Buffer_def Let_def w2_def [symmetric]
    by (simp add: h b l typed_set_def driver_BufferDescriptor_def)
  then show ?thesis by blast
qed

lemma le_value_single: "le_value [b] = unat b"
  by simp

text \<open>On the heap, a \<^verbatim>\<open>Uint8Array\<close> is copied byte for byte.\<close>

lemma new_Uint8Array_Uint8:
  assumes "kind ta = Uint8" "byteOffset ta + len ta \<le> length (mem w (buffer ta))"
  shows "map (\<lambda>i. (of_nat (element w ta i) :: byte)) [0..<len ta] = bytes_of w ta"
proof (rule nth_equalityI)
  show "length (map (\<lambda>i. (of_nat (element w ta i) :: byte)) [0..<len ta]) = length (bytes_of w ta)"
    using assms by (simp add: bytes_of_def subarray_def byteLength_def)
next
  fix i assume "i < length (map (\<lambda>i. (of_nat (element w ta i) :: byte)) [0..<len ta])"
  then have i: "i < len ta" by simp
  then have "byteOffset ta + i < length (mem w (buffer ta))" using assms(2) by simp
  then have "subarray (mem w (buffer ta)) (byteOffset ta + i) (byteOffset ta + i + 1)
      = [mem w (buffer ta) ! (byteOffset ta + i)]"
    by (simp add: subarray_def take_Suc_conv_app_nth)
  then have "element w ta i = unat (mem w (buffer ta) ! (byteOffset ta + i))"
    using assms(1) by (simp add: element_def)
  then show "map (\<lambda>i. (of_nat (element w ta i) :: byte)) [0..<len ta] ! i = bytes_of w ta ! i"
    using i assms by (simp add: bytes_of_def subarray_def byteLength_def)
qed

lemma bytes_of_whole:
  "mem w b = c \<Longrightarrow> n = length c \<Longrightarrow>
   bytes_of w \<lparr>buffer = b, byteOffset = 0, len = n, kind = Uint8\<rparr> = c"
  by (simp add: bytes_of_def subarray_def byteLength_def)

lemma Buffer_bytes_heap_Uint8:
  assumes "HEAPU32_buffer w = buffer ta" "kind ta = Uint8"
    and "byteOffset ta + len ta \<le> length (mem w (buffer ta))"
  shows "\<exists>w'. Buffer w ta = Inr (w', \<lparr>bytes = bytes_of w ta\<rparr>)"
proof -
  define w2 where "w2 = console_assert (console_assert w (is_ArrayBuffer (buffer ta))) (0 < byteLength ta)"
  have h: "HEAPU32_buffer w2 = buffer ta" "mem w2 = mem w"
    using assms(1) by (simp_all add: w2_def console_assert_fields)
  have e: "element w2 ta = element w ta"
    by (rule ext) (simp add: element_def h)
  have c: "map (\<lambda>i. (of_nat (element w2 ta i) :: byte)) [0..<len ta] = bytes_of w ta"
    unfolding e by (rule new_Uint8Array_Uint8 [OF assms(2,3)])
  have l: "length (bytes_of w ta) = len ta"
    using assms(2,3) by (simp add: bytes_of_def subarray_def byteLength_def)
  have "Buffer w ta = Inr (fst (new_Uint8Array w2 ta), \<lparr>bytes = bytes_of w ta\<rparr>)"
    unfolding Buffer_def Let_def w2_def [symmetric]
    by (simp add: h new_Uint8Array_def Let_def c l typed_set_def driver_BufferDescriptor_def
        Uint8Array_view_def byteLength_def bytes_of_whole)
  then show ?thesis by blast
qed

section \<open>Properties of createTextureFromKtx\<close>

lemma add_image_last:
  "textures w = pre @ [t] \<Longrightarrow>
   textures (add_image w (length pre) img) = pre @ [t\<lparr>images := images t @ [img]\<rparr>]"
  by (simp add: add_image_def)

lemma set_levels_Inr:
  "\<forall>w t l p. \<exists>img. set_image w t l p = add_image w t img \<Longrightarrow>
   tex = length pre \<Longrightarrow> textures w = pre @ [t] \<Longrightarrow>
    \<exists>w' t'. set_levels blob set_image pbformat pbtype tex nlevels level w = Inr w'
       \<and> textures w' = pre @ [t'] \<and> t'\<lparr>images := []\<rparr> = t\<lparr>images := []\<rparr>
       \<and> length (images t') = length (images t) + (nlevels - level)"
proof (induction blob set_image pbformat pbtype tex nlevels level w arbitrary: t
    rule: set_levels.induct)
  case (1 blob set_image pbformat pbtype tex nlevels level w)
  note setter = "1.prems"(1) and tex = "1.prems"(2) and tw = "1.prems"(3)
  show ?case
  proof (cases "level < nlevels")
    case False
    then have "set_levels blob set_image pbformat pbtype tex nlevels level w = Inr w"
      by (subst set_levels.simps) simp
    then show ?thesis using tw False by simp
  next
    case True
    from PixelBuffer_Inr [of w "blob level" pbformat pbtype] obtain w1 pb where
      pb: "PixelBuffer w (blob level) pbformat pbtype = Inr (w1, pb)" and t1: "textures w1 = textures w"
      by blast
    obtain img where img: "set_image w1 tex level pb = add_image w1 tex img"
      using setter by blast
    let ?t = "t\<lparr>images := images t @ [img]\<rparr>"
    have tx: "textures (set_image w1 tex level pb) = pre @ [?t]"
    proof -
      have "textures w1 = pre @ [t]" by (simp add: t1 tw)
      from add_image_last [OF this, of img] show ?thesis
        unfolding tex img [unfolded tex] .
    qed
    from "1.IH" [OF True pb refl setter tex tx]
    obtain w' t' where r: "set_levels blob set_image pbformat pbtype tex nlevels (level + 1)
          (set_image w1 tex level pb) = Inr w'"
      "textures w' = pre @ [t']" "t'\<lparr>images := []\<rparr> = ?t\<lparr>images := []\<rparr>"
      "length (images t') = length (images ?t) + (nlevels - (level + 1))"
      by blast
    have "set_levels blob set_image pbformat pbtype tex nlevels level w = Inr w'"
      using True pb r(1) by (subst set_levels.simps) simp
    moreover have "length (images t') = length (images t) + (nlevels - level)"
      using r(4) True by simp
    moreover have "t'\<lparr>images := []\<rparr> = t\<lparr>images := []\<rparr>" using r(3) by simp
    ultimately show ?thesis using r(2) by blast
  qed
qed

lemma setters_add_image:
  "\<forall>w t l p. \<exists>img. setImage w t l p = add_image w t img"
  "\<forall>w t l p. \<exists>img. setImageCube w t l p = add_image w t img"
  by (auto simp: setImage_def setImageCube_def)

lemma build_texture_Inr:
  "\<exists>w' t. build_texture w ktx r texformat pbformat pbtype = Inr (w', Some (length (textures w)))
     \<and> textures w' = textures w @ [t]
     \<and> t\<lparr>images := []\<rparr> =
         \<lparr>width = pixelWidth (info ktx), height = pixelHeight (info ktx),
          levels = getNumMipLevels ktx,
          sampler = (if isCubemap ktx then SAMPLER_CUBEMAP else SAMPLER_2D),
          format = texformat, rgbm = r, images = []\<rparr>
     \<and> length (images t) = getNumMipLevels ktx"
proof -
  define t0 where "t0 = \<lparr>width = pixelWidth (info ktx), height = pixelHeight (info ktx),
          levels = getNumMipLevels ktx,
          sampler = (if isCubemap ktx then SAMPLER_CUBEMAP else SAMPLER_2D),
          format = texformat, rgbm = r, images = []\<rparr>"
  define w1 where "w1 = w\<lparr>textures := textures w @ [t0]\<rparr>"
  define blob where "blob = (if isCubemap ktx then getCubeBlob ktx else getBlob ktx)"
  define setter where "setter = (if isCubemap ktx then setImageCube else setImage)"
  have b: "build w t0 = (w1, length (textures w))"
    by (simp add: build_def w1_def)
  have s: "\<forall>w t l p. \<exists>img. setter w t l p = add_image w t img"
    using setters_add_image by (simp add: setter_def)
  have tw: "textures w1 = textures w @ [t0]" by (simp add: w1_def)
  from set_levels_Inr [OF s refl tw, of blob pbformat pbtype "getNumMipLevels ktx" 0]
  obtain w' t where r: "set_levels blob setter pbformat pbtype (length (textures w)) (getNumMipLevels ktx) 0 w1 = Inr w'"
    "textures w' = textures w @ [t]" "t\<lparr>images := []\<rparr> = t0\<lparr>images := []\<rparr>"
    "length (images t) = length (images t0) + (getNumMipLevels ktx - 0)"
    by blast
  have "build_texture w ktx r texformat pbformat pbtype = Inr (w', Some (length (textures w)))"
    unfolding build_texture_def Let_def t0_def [symmetric] b
    using r(1) by (cases "isCubemap ktx") (simp_all add: blob_def setter_def)
  moreover have "t\<lparr>images := []\<rparr> = t0" using r(3) by (simp add: t0_def)
  moreover have "length (images t) = getNumMipLevels ktx" using r(4) by (simp add: t0_def)
  ultimately show ?thesis using r(2) unfolding t0_def by blast
qed

lemma open_ktx_Inr:
  "\<exists>w1 ktx. open_ktx new_KtxBundle w ktxdata opts = Inr (w1, ktx) \<and> textures w1 = textures w"
proof (cases "opt_ktx opts")
  case (Some k)
  then show ?thesis by (simp add: open_ktx_def)
next
  case None
  from Buffer_Inr [of w ktxdata] obtain w' bd where
    "Buffer w ktxdata = Inr (w', bd)" "textures w' = textures w" by blast
  then show ?thesis using None by (simp add: open_ktx_def)
qed

text \<open>
  Claim C4. \<open>createTextureFromKtx\<close> returns, and with the bundle \<open>ktx\<close> it reads (the
  one of the options, or the one parsed from the data): if the internal format of
  \<open>ktx\<close> is neither \<^verbatim>\<open>gl.RGB\<close> nor \<^verbatim>\<open>gl.RGBA\<close>, the result is \<^verbatim>\<open>null\<close>, the error
  \<^verbatim>\<open>'Unsupported KTX format.'\<close> is the last message on the console, and the engine
  has the textures it had; if it is one of the two, the result is a texture the call has
  added to the engine, built with the width, height, levels and sampler of the bundle,
  the format \<open>RGB8\<close> or \<open>RGBA8\<close> and the \<open>rgbm\<close> flag of the options, with one image
  for each level.
\<close>

theorem createTextureFromKtx_formats:
  "\<exists>w1 ktx. open_ktx new_KtxBundle w ktxdata opts = Inr (w1, ktx)
     \<and> (glInternalFormat (info ktx) \<noteq> gl_RGB gl \<and> glInternalFormat (info ktx) \<noteq> gl_RGBA gl \<longrightarrow>
          (\<exists>w'. createTextureFromKtx gl new_KtxBundle w ktxdata opts = Inr (w', None)
             \<and> console w' = console w1 @ [ConsoleError ''Unsupported KTX format.'']
             \<and> textures w' = textures w))
     \<and> (glInternalFormat (info ktx) = gl_RGB gl \<or> glInternalFormat (info ktx) = gl_RGBA gl \<longrightarrow>
          (\<exists>w' t. createTextureFromKtx gl new_KtxBundle w ktxdata opts
                      = Inr (w', Some (length (textures w)))
             \<and> textures w' = textures w @ [t]
             \<and> width t = pixelWidth (info ktx) \<and> height t = pixelHeight (info ktx)
             \<and> levels t = getNumMipLevels ktx
             \<and> sampler t = (if isCubemap ktx then SAMPLER_CUBEMAP else SAMPLER_2D)
             \<and> format t = (if glInternalFormat (info ktx) = gl_RGB gl then RGB8 else RGBA8)
             \<and> rgbm t = opt_rgbm opts
             \<and> length (images t) = getNumMipLevels ktx))"
proof -
  from open_ktx_Inr [of new_KtxBundle w ktxdata opts] obtain w1 ktx where
    o: "open_ktx new_KtxBundle w ktxdata opts = Inr (w1, ktx)" and t1: "textures w1 = textures w"
    by blast
  let ?f = "glInternalFormat (info ktx)"
  have unsupported: "\<exists>w'. createTextureFromKtx gl new_KtxBundle w ktxdata opts = Inr (w', None)
             \<and> console w' = console w1 @ [ConsoleError ''Unsupported KTX format.'']
             \<and> textures w' = textures w"
    if "?f \<noteq> gl_RGB gl \<and> ?f \<noteq> gl_RGBA gl"
  proof -
    have "createTextureFromKtx gl new_KtxBundle w ktxdata opts
        = Inr (console_error w1 ''Unsupported KTX format.'', None)"
      using that by (simp add: createTextureFromKtx_def o Let_def)
    then show ?thesis by (simp add: console_error_def t1)
  qed
  have supported: "\<exists>w' t. createTextureFromKtx gl new_KtxBundle w ktxdata opts
                      = Inr (w', Some (length (textures w)))
             \<and> textures w' = textures w @ [t]
             \<and> width t = pixelWidth (info ktx) \<and> height t = pixelHeight (info ktx)
             \<and> levels t = getNumMipLevels ktx
             \<and> sampler t = (if isCubemap ktx then SAMPLER_CUBEMAP else SAMPLER_2D)
             \<and> format t = (if glInternalFormat (info ktx) = gl_RGB gl then RGB8 else RGBA8)
             \<and> rgbm t = opt_rgbm opts
             \<and> length (images t) = getNumMipLevels ktx"
    if "?f = gl_RGB gl \<or> ?f = gl_RGBA gl"
  proof -
    define texformat where "texformat = (if ?f = gl_RGB gl then RGB8 else RGBA8)"
    define pbformat where "pbformat = (if ?f = gl_RGB gl then RGB else if opt_rgbm opts then RGBM else RGBA)"
    have c: "createTextureFromKtx gl new_KtxBundle w ktxdata opts
        = build_texture w1 ktx (opt_rgbm opts) texformat pbformat UBYTE"
      using that by (auto simp: createTextureFromKtx_def o Let_def texformat_def pbformat_def)
    from build_texture_Inr [of w1 ktx "opt_rgbm opts" texformat pbformat UBYTE]
    obtain w' t where b: "build_texture w1 ktx (opt_rgbm opts) texformat pbformat UBYTE
          = Inr (w', Some (length (textures w1)))"
      "textures w' = textures w1 @ [t]"
      "t\<lparr>images := []\<rparr> =
         \<lparr>width = pixelWidth (info ktx), height = pixelHeight (info ktx),
          levels = getNumMipLevels ktx,
          sampler = (if isCubemap ktx then SAMPLER_CUBEMAP else SAMPLER_2D),
          format = texformat, rgbm = opt_rgbm opts, images = []\<rparr>"
      "length (images t) = getNumMipLevels ktx"
      by blast
    have f: "width t = pixelWidth (info ktx)" "height t = pixelHeight (info ktx)"
      "levels t = getNumMipLevels ktx"
      "sampler t = (if isCubemap ktx then SAMPLER_CUBEMAP else SAMPLER_2D)"
      "format t = texformat" "rgbm t = opt_rgbm opts"
      using arg_cong [OF b(3), of width] arg_cong [OF b(3), of height] arg_cong [OF b(3), of levels]
        arg_cong [OF b(3), of sampler] arg_cong [OF b(3), of format] arg_cong [OF b(3), of rgbm]
      by simp_all
    show ?thesis
      using c b(1,2,4) f unfolding t1 texformat_def
      by (intro exI [of _ w'] exI [of _ t] conjI) simp_all
  qed
  from o unsupported supported show ?thesis by blast
qed

text \<open>
  A \<^verbatim>\<open>Uint16Array\<close> on an \<^verbatim>\<open>ArrayBuffer\<close>, the same array on a
  \<^verbatim>\<open>SharedArrayBuffer\<close>, and an empty array.
\<close>

theorem Buffer_assertions_witness:
  "(\<exists>w' bd. Buffer heap_world heap_u16 = Inr (w', bd)
      \<and> is_ArrayBuffer (buffer heap_u16) \<and> 0 < byteLength heap_u16
      \<and> console w' = console heap_world)
   \<and> (\<exists>w' bd. Buffer heap_world (heap_u16\<lparr>buffer := SharedArrayBuffer 0\<rparr>) = Inr (w', bd)
      \<and> \<not> is_ArrayBuffer (SharedArrayBuffer 0)
      \<and> console w' = [AssertionFailed])
   \<and> (\<exists>w' bd. PixelBuffer heap_world heap_u16 RGBA UBYTE = Inr (w', bd)
      \<and> console w' = console heap_world)
   \<and> (\<exists>w' bd. PixelBuffer heap_world (heap_u16\<lparr>len := 0\<rparr>) RGBA UBYTE = Inr (w', bd)
      \<and> byteLength (heap_u16\<lparr>len := 0\<rparr>) = 0
      \<and> last (console w') = AssertionFailed)"
proof (intro conjI)
  have v: "is_ArrayBuffer (buffer heap_u16)" "0 < byteLength heap_u16"
    by (simp_all add: heap_u16_def byteLength_def)
  show "\<exists>w' bd. Buffer heap_world heap_u16 = Inr (w', bd)
      \<and> is_ArrayBuffer (buffer heap_u16) \<and> 0 < byteLength heap_u16
      \<and> console w' = console heap_world"
    using Buffer_assertions [of heap_world heap_u16 RGBA UBYTE] v by auto
  show "\<exists>w' bd. PixelBuffer heap_world heap_u16 RGBA UBYTE = Inr (w', bd)
      \<and> console w' = console heap_world"
    using Buffer_assertions [of heap_world heap_u16 RGBA UBYTE] v by auto
  have s: "\<not> is_ArrayBuffer (buffer (heap_u16\<lparr>buffer := SharedArrayBuffer 0\<rparr>))"
    "0 < byteLength (heap_u16\<lparr>buffer := SharedArrayBuffer 0\<rparr>)" "console heap_world = []"
    by (simp_all add: heap_u16_def byteLength_def heap_world_def)
  show "\<exists>w' bd. Buffer heap_world (heap_u16\<lparr>buffer := SharedArrayBuffer 0\<rparr>) = Inr (w', bd)
      \<and> \<not> is_ArrayBuffer (SharedArrayBuffer 0)
      \<and> console w' = [AssertionFailed]"
    using Buffer_assertions [of heap_world "heap_u16\<lparr>buffer := SharedArrayBuffer 0\<rparr>" RGBA UBYTE] s
    by auto
  have z: "byteLength (heap_u16\<lparr>len := 0\<rparr>) = 0"
    by (simp add: byteLength_def)
  show "\<exists>w' bd. PixelBuffer heap_world (heap_u16\<lparr>len := 0\<rparr>) RGBA UBYTE = Inr (w', bd)
      \<and> byteLength (heap_u16\<lparr>len := 0\<rparr>) = 0
      \<and> last (console w') = AssertionFailed"
    using Buffer_assertions [of heap_world "heap_u16\<lparr>len := 0\<rparr>" RGBA UBYTE] z
    by (elim conjE exE) (intro exI conjI, assumption, simp, simp)
qed

text \<open>
  A bundle in the format 33777 (a compressed format), parsed from the data, and a bundle
  in the format \<^verbatim>\<open>gl.RGBA\<close>, passed in the options.
\<close>

theorem createTextureFromKtx_formats_witness:
  "(\<exists>w'. glInternalFormat (info (sample_ktx 33777)) \<noteq> gl_RGB sample_gl
        \<and> glInternalFormat (info (sample_ktx 33777)) \<noteq> gl_RGBA sample_gl
        \<and> createTextureFromKtx sample_gl (\<lambda>bd. sample_ktx 33777) heap_world heap_u16
             \<lparr>opt_ktx = None, opt_rgbm = False\<rparr> = Inr (w', None)
        \<and> console w' = [ConsoleError ''Unsupported KTX format.'']
        \<and> textures w' = [])
   \<and> (\<exists>w' t. glInternalFormat (info (sample_ktx 6408)) = gl_RGBA sample_gl
        \<and> createTextureFromKtx sample_gl (\<lambda>bd. sample_ktx 33777) heap_world heap_u16
             \<lparr>opt_ktx = Some (sample_ktx 6408), opt_rgbm = True\<rparr> = Inr (w', Some 0)
        \<and> textures w' = [t] \<and> width t = 2 \<and> height t = 1 \<and> levels t = 1
        \<and> sampler t = SAMPLER_2D \<and> format t = RGBA8 \<and> rgbm t = True
        \<and> length (images t) = 1)"
proof
  let ?o = "\<lparr>opt_ktx = None, opt_rgbm = False\<rparr>"
  from Buffer_Inr [of heap_world heap_u16] obtain w0 bd where
    b: "Buffer heap_world heap_u16 = Inr (w0, bd)" and c0: "console w0 = []"
    by (auto simp: heap_world_def heap_u16_def byteLength_def)
  have o: "open_ktx (\<lambda>bd. sample_ktx 33777) heap_world heap_u16 ?o = Inr (w0, sample_ktx 33777)"
    by (simp add: open_ktx_def b)
  have f: "glInternalFormat (info (sample_ktx 33777)) \<noteq> gl_RGB sample_gl"
    "glInternalFormat (info (sample_ktx 33777)) \<noteq> gl_RGBA sample_gl"
    "textures heap_world = []"
    by (simp_all add: sample_ktx_def sample_gl_def heap_world_def)
  from createTextureFromKtx_formats [of "\<lambda>bd. sample_ktx 33777" heap_world heap_u16 ?o sample_gl]
  show "\<exists>w'. glInternalFormat (info (sample_ktx 33777)) \<noteq> gl_RGB sample_gl
        \<and> glInternalFormat (info (sample_ktx 33777)) \<noteq> gl_RGBA sample_gl
        \<and> createTextureFromKtx sample_gl (\<lambda>bd. sample_ktx 33777) heap_world heap_u16 ?o = Inr (w', None)
        \<and> console w' = [ConsoleError ''Unsupported KTX format.'']
        \<and> textures w' = []"
    unfolding o using f c0 by auto
next
  let ?o = "\<lparr>opt_ktx = Some (sample_ktx 6408), opt_rgbm = True\<rparr>"
  have o: "open_ktx (\<lambda>bd. sample_ktx 33777) heap_world heap_u16 ?o = Inr (heap_world, sample_ktx 6408)"
    by (simp add: open_ktx_def)
  have f: "glInternalFormat (info (sample_ktx 6408)) = gl_RGBA sample_gl"
    "glInternalFormat (info (sample_ktx 6408)) \<noteq> gl_RGB sample_gl"
    "textures heap_world = []" "pixelWidth (info (sample_ktx 6408)) = 2"
    "pixelHeight (info (sample_ktx 6408)) = 1" "getNumMipLevels (sample_ktx 6408) = 1"
    "\<not> isCubemap (sample_ktx 6408)"
    by (simp_all add: sample_ktx_def sample_gl_def heap_world_def)
  from createTextureFromKtx_formats [of "\<lambda>bd. sample_ktx 33777" heap_world heap_u16 ?o sample_gl]
  show "\<exists>w' t. glInternalFormat (info (sample_ktx 6408)) = gl_RGBA sample_gl
        \<and> createTextureFromKtx sample_gl (\<lambda>bd. sample_ktx 33777) heap_world heap_u16 ?o = Inr (w', Some 0)
        \<and> textures w' = [t] \<and> width t = 2 \<and> height t = 1 \<and> levels t = 1
        \<and> sampler t = SAMPLER_2D \<and> format t = RGBA8 \<and> rgbm t = True
        \<and> length (images t) = 1"
    unfolding o using f by auto
qed

end
